theory Spec2Isabelle
  imports Main "HOL-Library.AList"
begin

section \<open>Strings\<close>

text \<open>
  A Go string is a sequence of bytes; it is modelled as a \<^typ>\<open>string\<close>, one
  \<^typ>\<open>char\<close> per byte. This section has the functions of Go's \<open>strings\<close> package that
  the model needs.

  \<open>strings.Split(s, sep)\<close> is only ever called with a separator of one byte
  (\<open>","\<close>, \<open>"\n"\<close>, \<open>"\t"\<close>, \<open>":"\<close>), so the separator is a \<^typ>\<open>char\<close> here.
  A string with \<open>n\<close> separators gives \<open>n + 1\<close> pieces; the empty string gives one
  empty piece.
\<close>

fun Split :: "string \<Rightarrow> char \<Rightarrow> string list" where
  "Split [] sep = [[]]"
| "Split (c # cs) sep =
     (if c = sep then [] # Split cs sep
      else (case Split cs sep of [] \<Rightarrow> [[c]] | p # ps \<Rightarrow> (c # p) # ps))"

text \<open>\<open>strings.Join(elems, sep)\<close>, again with a separator of one byte.\<close>

fun Join :: "string list \<Rightarrow> char \<Rightarrow> string" where
  "Join [] sep = []"
| "Join [x] sep = x"
| "Join (x # y # ys) sep = x @ sep # Join (y # ys) sep"

text \<open>
  \<open>strings.TrimSpace\<close> removes the leading and the trailing white space of a string,
  white space being the runes for which \<open>unicode.IsSpace\<close> holds. \<open>spaceRunes\<close> lists
  their UTF-8 encodings: the six ASCII ones, U+0085, U+00A0, U+1680, U+2000 to U+200A,
  U+2028, U+2029, U+202F, U+205F and U+3000.
\<close>

definition spaceRunes :: "string list" where
  "spaceRunes =
     [[CHR 0x09], [CHR 0x0A], [CHR 0x0B], [CHR 0x0C], [CHR 0x0D], [CHR 0x20],
      [CHR 0xC2, CHR 0x85], [CHR 0xC2, CHR 0xA0],
      [CHR 0xE1, CHR 0x9A, CHR 0x80],
      [CHR 0xE2, CHR 0x80, CHR 0x80], [CHR 0xE2, CHR 0x80, CHR 0x81],
      [CHR 0xE2, CHR 0x80, CHR 0x82], [CHR 0xE2, CHR 0x80, CHR 0x83],
      [CHR 0xE2, CHR 0x80, CHR 0x84], [CHR 0xE2, CHR 0x80, CHR 0x85],
      [CHR 0xE2, CHR 0x80, CHR 0x86], [CHR 0xE2, CHR 0x80, CHR 0x87],
      [CHR 0xE2, CHR 0x80, CHR 0x88], [CHR 0xE2, CHR 0x80, CHR 0x89],
      [CHR 0xE2, CHR 0x80, CHR 0x8A],
      [CHR 0xE2, CHR 0x80, CHR 0xA8], [CHR 0xE2, CHR 0x80, CHR 0xA9],
      [CHR 0xE2, CHR 0x80, CHR 0xAF],
      [CHR 0xE2, CHR 0x81, CHR 0x9F],
      [CHR 0xE3, CHR 0x80, CHR 0x80]]"

text \<open>The number of bytes of the white-space rune a string starts with, 0 when it starts with none.\<close>

fun spaceWidth :: "string list \<Rightarrow> string \<Rightarrow> nat" where
  "spaceWidth [] s = 0"
| "spaceWidth (r # rs) s =
     (if r \<noteq> [] \<and> take (length r) s = r then length r else spaceWidth rs s)"

text \<open>
  The trimming loop. Every round removes at least one byte, so the length of the string
  bounds the number of rounds; \<open>TrimSpace\<close> starts the loop with that bound.
\<close>

fun stripSpace :: "string list \<Rightarrow> nat \<Rightarrow> string \<Rightarrow> string" where
  "stripSpace rs 0 s = s"
| "stripSpace rs (Suc n) s =
     (if spaceWidth rs s = 0 then s else stripSpace rs n (drop (spaceWidth rs s) s))"

definition TrimSpace :: "string \<Rightarrow> string" where
  "TrimSpace s =
     (let l = stripSpace spaceRunes (length s) s
      in rev (stripSpace (map rev spaceRunes) (length l) (rev l)))"

text \<open>
  \<open>strings.ToLower\<close>, on the ASCII letters. Go also maps the upper-case letters beyond
  ASCII; no such letter has \<open>y\<close> as its lower case, and the program only compares the
  result with \<open>"y"\<close>, so the comparison is the same.
\<close>

definition lowerByte :: "char \<Rightarrow> char" where
  "lowerByte c =
     (let n = (of_char c :: nat) in if 65 \<le> n \<and> n \<le> 90 then char_of (n + 32) else c)"

definition ToLower :: "string \<Rightarrow> string" where
  "ToLower s = map lowerByte s"


section \<open>Configuration\<close>

text \<open>
  The structs of both programs (\<open>main.go\<close> and the second program of the repository,
  called \<open>part_001\<close> below) are the same. A Go map that the program only looks up is a
  HOL map; a Go map that the program ranges over is an association list whose order is
  the order in which \<open>range\<close> visits the entries, with \<open>map_of\<close> for the lookups. Go does
  not fix that order, so a statement about every list is a statement about every order.
  The keys of a Go map are distinct; the theorems that need it assume it.
\<close>

record Environment =
  Context :: string
  Registry :: string
  Namespace :: string

record Config =
  Environments :: "string \<rightharpoonup> Environment"

record ServiceInfo =
  Enabled :: bool
  Version :: string

record ServiceGroup =
  group_Enabled :: bool
  group_Version :: string
  group_Services :: "string list"

record ServiceConfig =
  SingleServices :: "(string \<times> ServiceInfo) list"
  ServiceGroups :: "(string \<times> ServiceGroup) list"

text \<open>
  A \<open>map[string]string\<close> from service names to versions that the program builds and then
  ranges over: an association list, written with \<open>AList.update\<close> (replace the value of a
  key in place, or append the new key).
\<close>

type_synonym versions = "(string \<times> string) list"


section \<open>Effects\<close>

text \<open>
  The programs act on the world by running \<open>kubectl\<close>, by writing lines to the log file
  and to standard output, and by reading the answer to the confirmation prompt. A run is
  modelled by the list of these events in the order they happen. The texts of the messages
  are not modelled: a message is a constructor for its kind, with the values that the text
  is formatted from.
\<close>

datatype command =
    CurrentContext                  \<comment> \<open>\<open>kubectl config current-context\<close>\<close>
  | UseContext string               \<comment> \<open>\<open>kubectl config use-context CONTEXT\<close>\<close>
  | GetNodes                        \<comment> \<open>\<open>kubectl get nodes\<close>\<close>
  | GetDeployment string            \<comment> \<open>\<open>kubectl get deployment -n NAMESPACE -o jsonpath=...\<close>\<close>
  | SetImage string string string   \<comment> \<open>\<open>kubectl set image deployment SERVICE SERVICE=IMAGE -n NAMESPACE\<close>\<close>

text \<open>
  The errors that the programs make with \<open>fmt.Errorf\<close>, each with the values its text is
  formatted from: the output of the command that failed, or the name of the service.
\<close>

datatype error =
    InvalidEnv string               \<comment> \<open>the environment is not in \<open>config.json\<close>\<close>
  | SwitchFailed string             \<comment> \<open>\<open>use-context\<close> failed\<close>
  | ClusterCheckFailed string       \<comment> \<open>\<open>get nodes\<close> failed\<close>
  | GetDeploymentFailed string      \<comment> \<open>\<open>get deployment\<close> failed\<close>
  | NoServicesToDeploy              \<comment> \<open>\<open>Deploy\<close>: nothing selected\<close>
  | NoServicesToCheck               \<comment> \<open>\<open>Check\<close>: nothing selected\<close>
  | PublishFailed string string     \<comment> \<open>\<open>part_001\<close>: \<open>set image\<close> failed for the service\<close>
  | DeployErrors "error list"       \<comment> \<open>\<open>part_001\<close>: the errors of all updates, joined\<close>

text \<open>The result line of one update in \<open>main.go\<close>, where \<open>deployService\<close> returns a string.\<close>

datatype result = Succeeded string | Failed string string

datatype msg =
    MStart string string string     \<comment> \<open>start of \<open>Deploy\<close>: environment, services, version\<close>
  | MInvalidEnv string              \<comment> \<open>the environment is not known\<close>
  | MCurrentEnv string              \<comment> \<open>the context is already the active one\<close>
  | MSwitching string               \<comment> \<open>the context is being switched\<close>
  | MSwitchFailed error             \<comment> \<open>the switch has failed\<close>
  | MSwitched string                \<comment> \<open>the switch has succeeded\<close>
  | MWarnCurrent error              \<comment> \<open>warning: the first snapshot could not be read\<close>
  | MNoServices                     \<comment> \<open>nothing is selected\<close>
  | MNotFound string                \<comment> \<open>warning: the name is not found or not enabled\<close>
  | MSelected versions              \<comment> \<open>the resolved target\<close>
  | MPreview versions versions      \<comment> \<open>the table of \<open>previewVersions\<close>: snapshot and target\<close>
  | MCancelled                      \<comment> \<open>the user has cancelled\<close>
  | MConfirmed                      \<comment> \<open>the user has confirmed; the updates start\<close>
  | MPublishing string string       \<comment> \<open>an update starts: service and image\<close>
  | MPublishFailed string string    \<comment> \<open>\<open>part_001\<close>: the update of the service has failed\<close>
  | MPublished string               \<comment> \<open>\<open>part_001\<close>: the update of the service has succeeded\<close>
  | MResult result                  \<comment> \<open>\<open>main.go\<close>: the result line of an update\<close>
  | MDeployResult result            \<comment> \<open>\<open>main.go\<close>: the result line as \<open>Deploy\<close> logs it\<close>
  | MWarnUpdated error              \<comment> \<open>warning: the second snapshot could not be read\<close>
  | MComparison versions versions   \<comment> \<open>the table of \<open>printVersionComparison\<close>\<close>
  | MDone                           \<comment> \<open>\<open>Deploy\<close> is complete\<close>
  | MNeedEnv                        \<comment> \<open>\<open>main\<close>: no environment given\<close>
  | MFailure error                  \<comment> \<open>\<open>main\<close>: the operation has failed\<close>

text \<open>
  \<open>Log\<close> is a line written to the log file (\<open>writeLog\<close> in \<open>main.go\<close>, \<open>Logger.Log\<close> in
  \<open>part_001\<close>), \<open>Print\<close> a line on standard output, \<open>Run\<close> a \<open>kubectl\<close> command, and
  \<open>Prompt\<close> the question of \<open>confirmDeploy\<close> together with the reading of the answer.
\<close>

datatype event = Run command | Log msg | Print msg | Prompt

text \<open>
  The world answers a command with success or failure (\<open>err == nil\<close> or not) and the
  combined output. The answer may depend on everything that happened before.
\<close>

type_synonym world = "event list \<Rightarrow> command \<Rightarrow> bool \<times> string"

definition exec :: "world \<Rightarrow> command \<Rightarrow> event list \<Rightarrow> (bool \<times> string) \<times> event list" where
  "exec w c tr = (w tr c, tr @ [Run c])"


section \<open>The service resolver\<close>

definition selectVersion :: "string \<Rightarrow> string \<Rightarrow> string" where
  "selectVersion inputVersion defaultVersion =
     (if inputVersion \<noteq> [] then inputVersion else defaultVersion)"

text \<open>The loop \<open>for _, service := range group.Services\<close> of both programs.\<close>

fun setServices :: "string list \<Rightarrow> string \<Rightarrow> versions \<Rightarrow> versions" where
  "setServices [] v selectedServices = selectedServices"
| "setServices (service # rest) v selectedServices =
     setServices rest v (AList.update service v selectedServices)"

subsection \<open>\<open>main.go\<close>\<close>

text \<open>The two loops of the branch \<open>servicesInput == ""\<close>; neither reads \<open>versionInput\<close>.\<close>

fun addSingleServices :: "(string \<times> ServiceInfo) list \<Rightarrow> versions \<Rightarrow> versions" where
  "addSingleServices [] selectedServices = selectedServices"
| "addSingleServices ((service, info) # rest) selectedServices =
     addSingleServices rest
       (if Enabled info then AList.update service (Version info) selectedServices
        else selectedServices)"

fun addServiceGroups :: "(string \<times> ServiceGroup) list \<Rightarrow> versions \<Rightarrow> versions" where
  "addServiceGroups [] selectedServices = selectedServices"
| "addServiceGroups ((name, grp) # rest) selectedServices =
     addServiceGroups rest
       (if group_Enabled grp
        then setServices (group_Services grp) (group_Version grp) selectedServices
        else selectedServices)"

text \<open>
  The lookups \<open>info, exists := s.services.SingleServices[service]; exists && info.Enabled\<close>
  and the same for a group, which both programs make for a name the user gave.
\<close>

definition enabledSingle :: "ServiceConfig \<Rightarrow> string \<Rightarrow> ServiceInfo option" where
  "enabledSingle s service =
     (case map_of (SingleServices s) service of
        Some info \<Rightarrow> if Enabled info then Some info else None
      | None \<Rightarrow> None)"

definition enabledGroup :: "ServiceConfig \<Rightarrow> string \<Rightarrow> ServiceGroup option" where
  "enabledGroup s service =
     (case map_of (ServiceGroups s) service of
        Some grp \<Rightarrow> if group_Enabled grp then Some grp else None
      | None \<Rightarrow> None)"

text \<open>
  The body of the loop over the names the user gave: the single service of that name,
  and then the group of that name too.
\<close>

definition selectOne :: "ServiceConfig \<Rightarrow> string \<Rightarrow> string \<Rightarrow> versions \<Rightarrow> versions" where
  "selectOne s versionInput service selectedServices =
     (let sel1 =
            (case enabledSingle s service of
               Some info \<Rightarrow>
                 AList.update service (selectVersion versionInput (Version info)) selectedServices
             | None \<Rightarrow> selectedServices)
      in case enabledGroup s service of
           Some grp \<Rightarrow>
             setServices (group_Services grp) (selectVersion versionInput (group_Version grp)) sel1
         | None \<Rightarrow> sel1)"

fun selectListed :: "ServiceConfig \<Rightarrow> string \<Rightarrow> string list \<Rightarrow> versions \<Rightarrow> versions" where
  "selectListed s versionInput [] selectedServices = selectedServices"
| "selectListed s versionInput (service # rest) selectedServices =
     selectListed s versionInput rest (selectOne s versionInput service selectedServices)"

definition getSelectedServices :: "ServiceConfig \<Rightarrow> string \<Rightarrow> string \<Rightarrow> versions" where
  "getSelectedServices s servicesInput versionInput =
     (if servicesInput = []
      then addServiceGroups (ServiceGroups s) (addSingleServices (SingleServices s) [])
      else selectListed s versionInput (Split servicesInput CHR '','') [])"

subsection \<open>\<open>part_001\<close>\<close>

text \<open>
  Here both branches go through \<open>selectVersion\<close>, a name is trimmed before it is looked
  up, a name that is an enabled single service is not looked up as a group
  (\<open>continue\<close>), and a name that is neither is logged. The log is an effect, so the
  resolver takes the events so far and returns them with the ones it added.
\<close>

fun addSingleServices_p001 ::
  "string \<Rightarrow> (string \<times> ServiceInfo) list \<Rightarrow> versions \<Rightarrow> versions" where
  "addSingleServices_p001 versionInput [] selectedServices = selectedServices"
| "addSingleServices_p001 versionInput ((service, info) # rest) selectedServices =
     addSingleServices_p001 versionInput rest
       (if Enabled info
        then AList.update service (selectVersion versionInput (Version info)) selectedServices
        else selectedServices)"

fun addServiceGroups_p001 ::
  "string \<Rightarrow> (string \<times> ServiceGroup) list \<Rightarrow> versions \<Rightarrow> versions" where
  "addServiceGroups_p001 versionInput [] selectedServices = selectedServices"
| "addServiceGroups_p001 versionInput ((name, grp) # rest) selectedServices =
     addServiceGroups_p001 versionInput rest
       (if group_Enabled grp
        then setServices (group_Services grp)
               (selectVersion versionInput (group_Version grp)) selectedServices
        else selectedServices)"

text \<open>
  The body of the loop over the names the user gave. Each \<open>continue\<close> ends the body, so
  the group is only looked up when the name is not an enabled single service.
\<close>

definition selectOne_p001 ::
  "ServiceConfig \<Rightarrow> string \<Rightarrow> string \<Rightarrow> versions \<times> event list \<Rightarrow> versions \<times> event list" where
  "selectOne_p001 s versionInput token st =
     (let service = TrimSpace token; selectedServices = fst st; tr = snd st in
      case enabledSingle s service of
        Some info \<Rightarrow>
          (AList.update service (selectVersion versionInput (Version info)) selectedServices, tr)
      | None \<Rightarrow>
         (case enabledGroup s service of
            Some grp \<Rightarrow>
              (setServices (group_Services grp)
                 (selectVersion versionInput (group_Version grp)) selectedServices, tr)
          | None \<Rightarrow> (selectedServices, tr @ [Log (MNotFound service)])))"

fun selectListed_p001 ::
  "ServiceConfig \<Rightarrow> string \<Rightarrow> string list \<Rightarrow> versions \<times> event list \<Rightarrow> versions \<times> event list" where
  "selectListed_p001 s versionInput [] st = st"
| "selectListed_p001 s versionInput (token # rest) st =
     selectListed_p001 s versionInput rest (selectOne_p001 s versionInput token st)"

definition getSelectedServices_p001 ::
  "ServiceConfig \<Rightarrow> string \<Rightarrow> string \<Rightarrow> event list \<Rightarrow> versions \<times> event list" where
  "getSelectedServices_p001 s servicesInput versionInput tr =
     (if servicesInput = []
      then (addServiceGroups_p001 versionInput (ServiceGroups s)
              (addSingleServices_p001 versionInput (SingleServices s) []), tr)
      else selectListed_p001 s versionInput (Split servicesInput CHR '','') ([], tr))"

subsection \<open>The enabled services\<close>

text \<open>
  \<open>getEnabledServices\<close> is the same in both programs. Its result is a
  \<open>map[string]bool\<close> whose values are all \<open>true\<close> and which is only asked whether it has
  a key: a set.
\<close>

definition getEnabledServices :: "ServiceConfig \<Rightarrow> string set" where
  "getEnabledServices s =
     set [service. (service, info) \<leftarrow> SingleServices s, Enabled info] \<union>
     set [service. (name, grp) \<leftarrow> ServiceGroups s, group_Enabled grp,
                   service \<leftarrow> group_Services grp]"

subsection \<open>Naming every enabled entry\<close>

text \<open>
  The scope filter that names every enabled single service and then every enabled group,
  in the order in which the configuration is ranged over.
\<close>

definition enabledSingleNames :: "ServiceConfig \<Rightarrow> string list" where
  "enabledSingleNames s = map fst (filter (\<lambda>e. Enabled (snd e)) (SingleServices s))"

definition enabledGroupNames :: "ServiceConfig \<Rightarrow> string list" where
  "enabledGroupNames s = map fst (filter (\<lambda>e. group_Enabled (snd e)) (ServiceGroups s))"

definition explicitScope :: "ServiceConfig \<Rightarrow> string" where
  "explicitScope s = Join (enabledSingleNames s @ enabledGroupNames s) CHR '',''"


section \<open>The cluster state reader\<close>

text \<open>
  The body of the loop over the lines of the query output. \<open>main.go\<close> nests the three
  tests and \<open>part_001\<close> leaves the body with \<open>continue\<close> when one fails; the lines that
  write an entry are the same, so one definition serves both.
\<close>

definition recordLine :: "string set \<Rightarrow> string \<Rightarrow> versions \<Rightarrow> versions" where
  "recordLine enabledServices line versions =
     (if line = [] then versions
      else
        let parts = Split line (CHR 0x09) in
        if length parts = 2 then
          let serviceName = parts ! 0 in
          if serviceName \<in> enabledServices then
            let imageParts = Split (parts ! 1) CHR '':'' in
            if length imageParts = 2
            then AList.update serviceName (imageParts ! 1) versions
            else versions
          else versions
        else versions)"

fun recordLines :: "string set \<Rightarrow> string list \<Rightarrow> versions \<Rightarrow> versions" where
  "recordLines enabledServices [] versions = versions"
| "recordLines enabledServices (line # lines) versions =
     recordLines enabledServices lines (recordLine enabledServices line versions)"

text \<open>In \<open>main.go\<close> the caller passes the map to fill, and the function returns the error.\<close>

definition getCurrentVersions ::
  "world \<Rightarrow> ServiceConfig \<Rightarrow> string \<Rightarrow> versions \<Rightarrow> event list
     \<Rightarrow> (error option \<times> versions) \<times> event list" where
  "getCurrentVersions w s namespace versions tr =
     (case exec w (GetDeployment namespace) tr of
        ((ok, output), tr1) \<Rightarrow>
          if \<not> ok then ((Some (GetDeploymentFailed output), versions), tr1)
          else
            let enabledServices = getEnabledServices s;
                lines = Split (TrimSpace output) (CHR 0x0A)
            in ((None, recordLines enabledServices lines versions), tr1))"

text \<open>In \<open>part_001\<close> the function makes the map and returns it, or the error.\<close>

definition getCurrentVersions_p001 ::
  "world \<Rightarrow> ServiceConfig \<Rightarrow> string \<Rightarrow> event list \<Rightarrow> (error + versions) \<times> event list" where
  "getCurrentVersions_p001 w s namespace tr =
     (case exec w (GetDeployment namespace) tr of
        ((ok, output), tr1) \<Rightarrow>
          if \<not> ok then (Inl (GetDeploymentFailed output), tr1)
          else
            let enabledServices = getEnabledServices s;
                lines = Split (TrimSpace output) (CHR 0x0A)
            in (Inr (recordLines enabledServices lines []), tr1))"


text \<open>
  The version of an image reference in the words of the specification: what follows the
  last \<open>:\<close> of the reference.
\<close>

definition afterLast :: "char \<Rightarrow> string \<Rightarrow> string" where
  "afterLast c s = rev (takeWhile (\<lambda>x. x \<noteq> c) (rev s))"


section \<open>The context switcher\<close>

definition switchContext :: "world \<Rightarrow> string \<Rightarrow> event list \<Rightarrow> error option \<times> event list" where
  "switchContext w context tr =
     (case exec w CurrentContext tr of
        ((ok, output), tr1) \<Rightarrow>
          if ok \<and> TrimSpace output = context
          then (None, tr1 @ [Print (MCurrentEnv context)])
          else
            (case exec w (UseContext context) (tr1 @ [Print (MSwitching context)]) of
               ((ok2, output2), tr2) \<Rightarrow>
                 if \<not> ok2 then (Some (SwitchFailed output2), tr2)
                 else
                   (case exec w GetNodes tr2 of
                      ((ok3, output3), tr3) \<Rightarrow>
                        if \<not> ok3 then (Some (ClusterCheckFailed output3), tr3)
                        else (None, tr3))))"

definition switchContext_p001 ::
  "world \<Rightarrow> string \<Rightarrow> event list \<Rightarrow> error option \<times> event list" where
  "switchContext_p001 w context tr =
     (case exec w (UseContext context) tr of
        ((ok, output), tr1) \<Rightarrow>
          if \<not> ok then (Some (SwitchFailed output), tr1) else (None, tr1))"


section \<open>The confirmation\<close>

text \<open>
  \<open>confirmDeploy\<close> is the same in both programs. \<open>response\<close> is what \<open>fmt.Scanln\<close> has
  stored in the variable of that name: the first word of the line the user typed, or
  the empty string when the line is empty or cannot be read.
\<close>

definition confirmDeploy :: "string \<Rightarrow> event list \<Rightarrow> bool \<times> event list" where
  "confirmDeploy response tr = (ToLower response = ''y'', tr @ [Prompt])"


section \<open>The deployment executor\<close>

text \<open>
  One update. The diagnostic of a failure is the output of the command; the programs
  remove \<open>exit status 1\<close> and the surrounding white space from it, which is not modelled.
\<close>

definition image_of :: "string \<Rightarrow> string \<Rightarrow> string \<Rightarrow> string" where
  "image_of registry service version = registry @ ''/'' @ service @ '':'' @ version"

definition deployService ::
  "world \<Rightarrow> string \<Rightarrow> string \<Rightarrow> string \<Rightarrow> string \<Rightarrow> event list \<Rightarrow> result \<times> event list" where
  "deployService w service registry namespace version tr =
     (let image = image_of registry service version in
      case exec w (SetImage service image namespace)
             (tr @ [Log (MPublishing service image), Print (MPublishing service image)]) of
        ((ok, output), tr1) \<Rightarrow>
          if \<not> ok
          then (Failed service output, tr1 @ [Log (MResult (Failed service output))])
          else (Succeeded service, tr1 @ [Log (MResult (Succeeded service))]))"

definition deployService_p001 ::
  "world \<Rightarrow> string \<Rightarrow> string \<Rightarrow> string \<Rightarrow> string \<Rightarrow> event list
     \<Rightarrow> error option \<times> event list" where
  "deployService_p001 w service registry namespace version tr =
     (let image = image_of registry service version in
      case exec w (SetImage service image namespace)
             (tr @ [Log (MPublishing service image), Print (MPublishing service image)]) of
        ((ok, output), tr1) \<Rightarrow>
          if \<not> ok
          then (Some (PublishFailed service output), tr1 @ [Log (MPublishFailed service output)])
          else (None, tr1 @ [Log (MPublished service)]))"

text \<open>
  The fan-out: one goroutine for every entry of the resolved target, and
  \<open>wg.Wait()\<close> for all of them. A goroutine runs one command; the model runs the
  goroutines one after the other, in the order of the list, which is one of the
  schedules that Go allows. In \<open>main.go\<close> a goroutine appends its result line to
  \<open>deployResults\<close> under the mutex; in \<open>part_001\<close> it sends its error, if it has one, to
  \<open>errChan\<close>, which has room for all of them.
\<close>

fun deployAll ::
  "world \<Rightarrow> Environment \<Rightarrow> versions \<Rightarrow> result list \<times> event list \<Rightarrow> result list \<times> event list" where
  "deployAll w envConfig [] st = st"
| "deployAll w envConfig ((service, ver) # rest) (deployResults, tr) =
     (case deployService w service (Registry envConfig) (Namespace envConfig) ver tr of
        (result, tr1) \<Rightarrow>
          deployAll w envConfig rest
            (deployResults @ [result], tr1 @ [Log (MDeployResult result)]))"

fun deployAll_p001 ::
  "world \<Rightarrow> Environment \<Rightarrow> versions \<Rightarrow> error list \<times> event list \<Rightarrow> error list \<times> event list" where
  "deployAll_p001 w envConfig [] st = st"
| "deployAll_p001 w envConfig ((service, version) # rest) (errors, tr) =
     (case deployService_p001 w service (Registry envConfig) (Namespace envConfig) version tr of
        (Some err, tr1) \<Rightarrow> deployAll_p001 w envConfig rest (errors @ [err], tr1)
      | (None, tr1) \<Rightarrow> deployAll_p001 w envConfig rest (errors, tr1))"


section \<open>The commands\<close>

subsection \<open>\<open>main.go\<close>\<close>

text \<open>
  \<open>Deploy\<close> from the point where the user has confirmed. The result lines are printed
  after \<open>sort.Strings\<close>; the model prints them in the order of the list. Whatever the
  results are, the function goes on to the second snapshot and returns \<open>nil\<close>.
\<close>

definition applyUpdates ::
  "world \<Rightarrow> ServiceConfig \<Rightarrow> Environment \<Rightarrow> versions \<Rightarrow> versions \<Rightarrow> event list
     \<Rightarrow> error option \<times> event list" where
  "applyUpdates w services envConfig currentVersions selectedServices tr =
     (case deployAll w envConfig selectedServices ([], tr @ [Log MConfirmed, Print MConfirmed]) of
        (deployResults, tr1) \<Rightarrow>
          (case getCurrentVersions w services (Namespace envConfig) []
                  (tr1 @ map (\<lambda>r. Print (MResult r)) deployResults) of
             ((err, updatedVersions), tr2) \<Rightarrow>
               let tr3 = (case err of
                            Some e \<Rightarrow> tr2 @ [Log (MWarnUpdated e), Print (MWarnUpdated e)]
                          | None \<Rightarrow> tr2)
               in (None, tr3 @ [Print (MComparison currentVersions updatedVersions), Log MDone])))"

text \<open>\<open>Deploy\<close> from the first snapshot on, for the environment that was looked up.\<close>

definition deployIn ::
  "world \<Rightarrow> ServiceConfig \<Rightarrow> string \<Rightarrow> Environment \<Rightarrow> string \<Rightarrow> string \<Rightarrow> event list
     \<Rightarrow> error option \<times> event list" where
  "deployIn w services response envConfig servicesInput versionInput tr =
     (case getCurrentVersions w services (Namespace envConfig) [] tr of
        ((err, currentVersions), tr1) \<Rightarrow>
          let tr2 = (case err of
                       Some e \<Rightarrow> tr1 @ [Log (MWarnCurrent e), Print (MWarnCurrent e)]
                     | None \<Rightarrow> tr1);
              selectedServices = getSelectedServices services servicesInput versionInput
          in
          if selectedServices = [] then (Some NoServicesToDeploy, tr2 @ [Log MNoServices])
          else
            (case confirmDeploy response
                    (tr2 @ [Log (MSelected selectedServices),
                            Print (MPreview currentVersions selectedServices)]) of
               (confirmed, tr3) \<Rightarrow>
                 if \<not> confirmed then (None, tr3 @ [Log MCancelled, Print MCancelled])
                 else applyUpdates w services envConfig currentVersions selectedServices tr3))"

definition Deploy ::
  "world \<Rightarrow> Config \<Rightarrow> ServiceConfig \<Rightarrow> string \<Rightarrow> string \<Rightarrow> string \<Rightarrow> string
     \<Rightarrow> error option \<times> event list" where
  "Deploy w config services response env servicesInput versionInput =
     (let tr0 = [Log (MStart env servicesInput versionInput)] in
      case Environments config env of
        None \<Rightarrow> (Some (InvalidEnv env), tr0 @ [Log (MInvalidEnv env)])
      | Some envConfig \<Rightarrow>
         (case switchContext w (Context envConfig) tr0 of
            (Some err, tr1) \<Rightarrow> (Some err, tr1 @ [Log (MSwitchFailed err)])
          | (None, tr1) \<Rightarrow>
              deployIn w services response envConfig servicesInput versionInput
                (tr1 @ [Log (MSwitched (Context envConfig))])))"

definition Check ::
  "world \<Rightarrow> Config \<Rightarrow> ServiceConfig \<Rightarrow> string \<Rightarrow> string \<Rightarrow> string
     \<Rightarrow> error option \<times> event list" where
  "Check w config services env servicesInput versionInput =
     (case Environments config env of
        None \<Rightarrow> (Some (InvalidEnv env), [])
      | Some envConfig \<Rightarrow>
         (case switchContext w (Context envConfig) [] of
            (Some err, tr1) \<Rightarrow> (Some err, tr1)
          | (None, tr1) \<Rightarrow>
             (case getCurrentVersions w services (Namespace envConfig) [] tr1 of
                ((err, currentVersions), tr2) \<Rightarrow>
                  let tr3 = (case err of Some e \<Rightarrow> tr2 @ [Print (MWarnCurrent e)] | None \<Rightarrow> tr2);
                      selectedServices = getSelectedServices services servicesInput versionInput
                  in
                  if selectedServices = [] then (Some NoServicesToCheck, tr3)
                  else (None, tr3 @ [Print (MPreview currentVersions selectedServices)]))))"

text \<open>
  \<open>main\<close> from the point where the flags are parsed and both configuration files are
  loaded. The result is the exit code of the process and the events of the run.
\<close>

definition main ::
  "world \<Rightarrow> Config \<Rightarrow> ServiceConfig \<Rightarrow> string \<Rightarrow> bool \<Rightarrow> string \<Rightarrow> string \<Rightarrow> string
     \<Rightarrow> nat \<times> event list" where
  "main w config services response isCheck env servicesInput versionInput =
     (if env = [] then (1, [Print MNeedEnv])
      else
        (case (if isCheck then Check w config services env servicesInput versionInput
               else Deploy w config services response env servicesInput versionInput) of
           (Some err, tr) \<Rightarrow> (1, tr @ [Print (MFailure err)])
         | (None, tr) \<Rightarrow> (0, tr)))"

subsection \<open>\<open>part_001\<close>\<close>

text \<open>
  \<open>Deploy\<close> from the point where the user has confirmed. The errors are collected from
  the channel after all goroutines have ended; if there is one, they are returned
  together, and the second snapshot is not taken.
\<close>

definition applyUpdates_p001 ::
  "world \<Rightarrow> ServiceConfig \<Rightarrow> Environment \<Rightarrow> versions \<Rightarrow> versions \<Rightarrow> event list
     \<Rightarrow> error option \<times> event list" where
  "applyUpdates_p001 w services envConfig currentVersions selectedServices tr =
     (case deployAll_p001 w envConfig selectedServices
             ([], tr @ [Log MConfirmed, Print MConfirmed]) of
        (errors, tr1) \<Rightarrow>
          if errors \<noteq> [] then (Some (DeployErrors errors), tr1)
          else
            (case getCurrentVersions_p001 w services (Namespace envConfig) tr1 of
               (Inl e, tr2) \<Rightarrow>
                 (None, tr2 @ [Log (MWarnUpdated e), Print (MWarnUpdated e),
                               Print (MComparison currentVersions []), Log MDone])
             | (Inr updatedVersions, tr2) \<Rightarrow>
                 (None, tr2 @ [Print (MComparison currentVersions updatedVersions), Log MDone])))"

definition deployIn_p001 ::
  "world \<Rightarrow> ServiceConfig \<Rightarrow> string \<Rightarrow> Environment \<Rightarrow> string \<Rightarrow> string \<Rightarrow> event list
     \<Rightarrow> error option \<times> event list" where
  "deployIn_p001 w services response envConfig servicesInput versionInput tr =
     (let snapshot =
            (case getCurrentVersions_p001 w services (Namespace envConfig) tr of
               (Inl e, tr1) \<Rightarrow> ([], tr1 @ [Log (MWarnCurrent e), Print (MWarnCurrent e)])
             | (Inr versions, tr1) \<Rightarrow> (versions, tr1));
          currentVersions = fst snapshot
      in
      case getSelectedServices_p001 services servicesInput versionInput (snd snapshot) of
        (selectedServices, tr2) \<Rightarrow>
          if selectedServices = [] then (Some NoServicesToDeploy, tr2)
          else
            (case confirmDeploy response
                    (tr2 @ [Log (MSelected selectedServices),
                            Print (MPreview currentVersions selectedServices)]) of
               (confirmed, tr3) \<Rightarrow>
                 if \<not> confirmed then (None, tr3 @ [Log MCancelled, Print MCancelled])
                 else applyUpdates_p001 w services envConfig currentVersions selectedServices tr3))"

definition Deploy_p001 ::
  "world \<Rightarrow> Config \<Rightarrow> ServiceConfig \<Rightarrow> string \<Rightarrow> string \<Rightarrow> string \<Rightarrow> string
     \<Rightarrow> error option \<times> event list" where
  "Deploy_p001 w config services response env servicesInput versionInput =
     (let tr0 = [Log (MStart env servicesInput versionInput)] in
      case Environments config env of
        None \<Rightarrow> (Some (InvalidEnv env), tr0)
      | Some envConfig \<Rightarrow>
         (case switchContext_p001 w (Context envConfig) tr0 of
            (Some err, tr1) \<Rightarrow> (Some err, tr1)
          | (None, tr1) \<Rightarrow>
              deployIn_p001 w services response envConfig servicesInput versionInput
                (tr1 @ [Log (MSwitched (Context envConfig))])))"

definition Check_p001 ::
  "world \<Rightarrow> Config \<Rightarrow> ServiceConfig \<Rightarrow> string \<Rightarrow> string \<Rightarrow> string
     \<Rightarrow> error option \<times> event list" where
  "Check_p001 w config services env servicesInput versionInput =
     (case Environments config env of
        None \<Rightarrow> (Some (InvalidEnv env), [])
      | Some envConfig \<Rightarrow>
         (case switchContext_p001 w (Context envConfig) [] of
            (Some err, tr1) \<Rightarrow> (Some err, tr1)
          | (None, tr1) \<Rightarrow>
             (case getCurrentVersions_p001 w services (Namespace envConfig) tr1 of
                (Inl err, tr2) \<Rightarrow> (Some err, tr2)
              | (Inr currentVersions, tr2) \<Rightarrow>
                 (case getSelectedServices_p001 services servicesInput versionInput tr2 of
                    (selectedServices, tr3) \<Rightarrow>
                      if selectedServices = [] then (Some NoServicesToCheck, tr3)
                      else (None, tr3 @ [Print (MPreview currentVersions selectedServices)])))))"

definition main_p001 ::
  "world \<Rightarrow> Config \<Rightarrow> ServiceConfig \<Rightarrow> string \<Rightarrow> bool \<Rightarrow> string \<Rightarrow> string \<Rightarrow> string
     \<Rightarrow> nat \<times> event list" where
  "main_p001 w config services response isCheck env servicesInput versionInput =
     (if env = [] then (1, [Print MNeedEnv])
      else
        (case (if isCheck then Check_p001 w config services env servicesInput versionInput
               else Deploy_p001 w config services response env servicesInput versionInput) of
           (Some err, tr) \<Rightarrow> (1, tr @ [Print (MFailure err)])
         | (None, tr) \<Rightarrow> (0, tr)))"


section \<open>Observations of a run\<close>

text \<open>The update commands of a run are the events that run \<open>kubectl set image\<close>.\<close>

fun isUpdate :: "event \<Rightarrow> bool" where
  "isUpdate (Run (SetImage service img namespace)) = True"
| "isUpdate e = False"

text \<open>The commands that read or write deployments: the query and the update.\<close>

fun touchesDeployments :: "event \<Rightarrow> bool" where
  "touchesDeployments (Run (SetImage service img namespace)) = True"
| "touchesDeployments (Run (GetDeployment namespace)) = True"
| "touchesDeployments e = False"


text \<open>The update commands for a resolved target: one for every entry.\<close>

definition updatesOf :: "Environment \<Rightarrow> versions \<Rightarrow> event list" where
  "updatesOf envConfig selectedServices =
     map (\<lambda>e. Run (SetImage (fst e) (image_of (Registry envConfig) (fst e) (snd e))
                       (Namespace envConfig))) selectedServices"

text \<open>The failed updates that a run of \<open>part_001\<close> has logged, as the errors they raise.\<close>

fun failures :: "event list \<Rightarrow> error list" where
  "failures [] = []"
| "failures (Log (MPublishFailed service out) # tr) = PublishFailed service out # failures tr"
| "failures (e # tr) = failures tr"


section \<open>Example configurations and worlds\<close>

text \<open>The services of the README, with a disabled single service and a disabled group added.\<close>

definition exampleServices :: ServiceConfig where
  "exampleServices =
     \<lparr>SingleServices =
        [(''docs-fe'', \<lparr>Enabled = True, Version = ''v3.48.1''\<rparr>),
         (''old-fe'', \<lparr>Enabled = False, Version = ''v0.9.0''\<rparr>)],
      ServiceGroups =
        [(''nft'', \<lparr>group_Enabled = True, group_Version = ''v1.15.5'',
                  group_Services = [''nft-core-be'', ''nft-ethereum-be'']\<rparr>),
         (''test'', \<lparr>group_Enabled = False, group_Version = ''v1.15.5'',
                   group_Services = [''web-test1-be'']\<rparr>)]\<rparr>"

definition exampleConfig :: Config where
  "exampleConfig =
     \<lparr>Environments =
        [''pre'' \<mapsto> \<lparr>Context = ''pre-cluster'', Registry = ''registry.example'',
                     Namespace = ''default''\<rparr>]\<rparr>"

text \<open>One enabled single service and nothing else.\<close>

definition docsOnly :: ServiceConfig where
  "docsOnly =
     \<lparr>SingleServices = [(''docs-fe'', \<lparr>Enabled = True, Version = ''v3.48.1''\<rparr>)],
      ServiceGroups = []\<rparr>"

text \<open>An enabled single service and an enabled group of the same name.\<close>

definition sameName :: ServiceConfig where
  "sameName =
     \<lparr>SingleServices = [(''api'', \<lparr>Enabled = True, Version = ''v1''\<rparr>)],
      ServiceGroups =
        [(''api'', \<lparr>group_Enabled = True, group_Version = ''v2'',
                  group_Services = [''api-worker'']\<rparr>)]\<rparr>"

text \<open>An enabled single service that an enabled group lists too.\<close>

definition overlapping :: ServiceConfig where
  "overlapping =
     \<lparr>SingleServices = [(''web'', \<lparr>Enabled = True, Version = ''v1''\<rparr>)],
      ServiceGroups =
        [(''stack'', \<lparr>group_Enabled = True, group_Version = ''v2'',
                    group_Services = [''web'']\<rparr>)]\<rparr>"

text \<open>
  A cluster in which \<open>pre-cluster\<close> is the active context, the query lists two
  deployments, and every command succeeds.
\<close>

definition deploymentRows :: string where
  "deploymentRows =
     ''docs-fe'' @ [CHR 0x09] @ ''registry.example/docs-fe:v3.48.0'' @ [CHR 0x0A] @
     ''other'' @ [CHR 0x09] @ ''registry.example/other:v7'' @ [CHR 0x0A]"

definition okWorld :: world where
  "okWorld tr c =
     (case c of
        CurrentContext \<Rightarrow> (True, ''pre-cluster'' @ [CHR 0x0A])
      | GetDeployment namespace \<Rightarrow> (True, deploymentRows)
      | _ \<Rightarrow> (True, []))"

text \<open>The same cluster when every update fails.\<close>

definition failedUpdateWorld :: world where
  "failedUpdateWorld tr c =
     (case c of
        SetImage service img namespace \<Rightarrow> (False, ''not found'')
      | _ \<Rightarrow> okWorld tr c)"

text \<open>The same cluster when the query of the deployments fails.\<close>

definition failedQueryWorld :: world where
  "failedQueryWorld tr c =
     (case c of
        GetDeployment namespace \<Rightarrow> (False, ''forbidden'')
      | _ \<Rightarrow> okWorld tr c)"

text \<open>
  A cluster that cannot be reached while \<open>prod-cluster\<close> is the active context: the
  commands that only read or write the local configuration succeed, the others time out.
\<close>

definition unreachableWorld :: world where
  "unreachableWorld tr c =
     (case c of
        CurrentContext \<Rightarrow> (True, ''prod-cluster'' @ [CHR 0x0A])
      | UseContext context \<Rightarrow> (True, [])
      | _ \<Rightarrow> (False, ''timeout''))"

text \<open>A cluster whose only deployment takes its image from a registry with a port.\<close>

definition portWorld :: world where
  "portWorld tr c =
     (case c of
        GetDeployment namespace \<Rightarrow>
          (True, ''docs-fe'' @ [CHR 0x09] @ ''localhost:5000/docs-fe:v3.48.0'' @ [CHR 0x0A])
      | _ \<Rightarrow> (True, []))"

section \<open>Properties of the string functions\<close>

lemma Split_nonempty: "Split s sep \<noteq> []"
  by (induction s) (auto split: list.splits)

lemma Split_no_sep: "sep \<notin> set s \<Longrightarrow> Split s sep = [s]"
  by (induction s) auto

lemma Split_append:
  "sep \<notin> set a \<Longrightarrow> Split (a @ sep # b) sep = a # Split b sep"
  by (induction a) auto

lemma Split_Join:
  "xs \<noteq> [] \<Longrightarrow> \<forall>x\<in>set xs. sep \<notin> set x \<Longrightarrow> Split (Join xs sep) sep = xs"
proof (induction xs sep rule: Join.induct)
  case (1 sep) then show ?case by simp
next
  case (2 x sep) then show ?case by (simp add: Split_no_sep)
next
  case (3 x y ys sep)
  then show ?case by (simp add: Split_append)
qed

lemma length_Split: "length (Split s sep) = Suc (count_list s sep)"
  by (induction s) (auto split: list.splits simp: Split_nonempty)



lemma length_two: "length xs = 2 \<longleftrightarrow> (\<exists>a b. xs = [a, b])"
  by (cases xs; cases "tl xs") auto

lemma Join_Split: "Join (Split s sep) sep = s"
proof (induction s)
  case Nil then show ?case by simp
next
  case (Cons c cs)
  obtain p ps where sp: "Split cs sep = p # ps"
    using Split_nonempty [of cs sep] by (cases "Split cs sep") auto
  with Cons show ?case by (cases ps) auto
qed

lemma Split_parts: "p \<in> set (Split s sep) \<Longrightarrow> sep \<notin> set p"
proof (induction s arbitrary: p)
  case Nil then show ?case by simp
next
  case (Cons c cs)
  obtain q qs where sp: "Split cs sep = q # qs"
    using Split_nonempty [of cs sep] by (cases "Split cs sep") auto
  with Cons show ?case by (auto split: if_splits)
qed

lemma Split_two:
  "Split s sep = [a, b] \<longleftrightarrow> s = a @ sep # b \<and> sep \<notin> set a \<and> sep \<notin> set b"
proof
  assume h: "Split s sep = [a, b]"
  from Join_Split [of s sep] h have "s = a @ sep # b" by simp
  moreover from Split_parts [of a s sep] Split_parts [of b s sep] h
  have "sep \<notin> set a" "sep \<notin> set b" by simp_all
  ultimately show "s = a @ sep # b \<and> sep \<notin> set a \<and> sep \<notin> set b" by simp
next
  assume "s = a @ sep # b \<and> sep \<notin> set a \<and> sep \<notin> set b"
  then show "Split s sep = [a, b]" by (simp add: Split_append Split_no_sep)
qed


lemma of_char_y: "(of_char CHR ''y'' :: nat) = 121" by simp
lemma of_char_Y: "(of_char CHR ''Y'' :: nat) = 89" by simp

lemma lowerByte_y: "lowerByte c = CHR ''y'' \<longleftrightarrow> c = CHR ''y'' \<or> c = CHR ''Y''"
proof -
  define n where "n = (of_char c :: nat)"
  have cy: "c = CHR ''y'' \<longleftrightarrow> n = 121"
    unfolding n_def of_char_y [symmetric] by (rule of_char_eq_iff [symmetric])
  have cY: "c = CHR ''Y'' \<longleftrightarrow> n = 89"
    unfolding n_def of_char_Y [symmetric] by (rule of_char_eq_iff [symmetric])
  show ?thesis
  proof (cases "65 \<le> n \<and> n \<le> 90")
    case True
    then have "take_bit 8 (n + 32) = n + 32" by (simp add: take_bit_eq_mod)
    then have "char_of (n + 32) = CHR ''y'' \<longleftrightarrow> n + 32 = 121"
      by (simp only: char_of_eq_iff of_char_y)
    with True show ?thesis
      unfolding cy cY by (simp add: lowerByte_def Let_def n_def [symmetric])
  next
    case False
    then show ?thesis
      unfolding cy cY by (auto simp: lowerByte_def Let_def n_def [symmetric] cy)
  qed
qed

lemma ToLower_y: "ToLower response = ''y'' \<longleftrightarrow> response = ''y'' \<or> response = ''Y''"
proof (cases response)
  case Nil then show ?thesis by (simp add: ToLower_def)
next
  case (Cons c cs)
  then show ?thesis using lowerByte_y [of c] by (cases cs) (simp_all add: ToLower_def)
qed


section \<open>Properties of the resolver\<close>

lemma map_of_setServices:
  "map_of (setServices ms v sel) n = (if n \<in> set ms then Some v else map_of sel n)"
  by (induction ms arbitrary: sel) (auto simp: update_conv')

lemma keys_setServices:
  "fst ` set (setServices ms v sel) = set ms \<union> fst ` set sel"
  by (induction ms arbitrary: sel) (auto simp: dom_update)

lemma distinct_setServices:
  "distinct (map fst sel) \<Longrightarrow> distinct (map fst (setServices ms v sel))"
  by (induction ms arbitrary: sel) (auto simp: distinct_update)


subsection \<open>Every selected service is enabled\<close>

lemma enabled_singleI:
  "(n, info) \<in> set (SingleServices s) \<Longrightarrow> Enabled info \<Longrightarrow> n \<in> getEnabledServices s"
  by (force simp: getEnabledServices_def)

lemma enabled_groupI:
  "(g, grp) \<in> set (ServiceGroups s) \<Longrightarrow> group_Enabled grp \<Longrightarrow> n \<in> set (group_Services grp)
   \<Longrightarrow> n \<in> getEnabledServices s"
  by (force simp: getEnabledServices_def)

lemma getEnabledServices_iff:
  "n \<in> getEnabledServices s \<longleftrightarrow>
     (\<exists>info. (n, info) \<in> set (SingleServices s) \<and> Enabled info) \<or>
     (\<exists>g grp. (g, grp) \<in> set (ServiceGroups s) \<and> group_Enabled grp \<and> n \<in> set (group_Services grp))"
  unfolding getEnabledServices_def by fastforce

lemma keys_addSingleServices:
  "fst ` set (addSingleServices ss sel) =
     {n. \<exists>info. (n, info) \<in> set ss \<and> Enabled info} \<union> fst ` set sel"
  by (induction ss sel rule: addSingleServices.induct) (auto simp: dom_update)

lemma keys_addServiceGroups:
  "fst ` set (addServiceGroups gs sel) =
     {n. \<exists>g grp. (g, grp) \<in> set gs \<and> group_Enabled grp \<and> n \<in> set (group_Services grp)}
       \<union> fst ` set sel"
  by (induction gs sel rule: addServiceGroups.induct) (auto simp: keys_setServices)

lemma keys_addSingleServices_p001:
  "fst ` set (addSingleServices_p001 ver ss sel) =
     {n. \<exists>info. (n, info) \<in> set ss \<and> Enabled info} \<union> fst ` set sel"
  by (induction ver ss sel rule: addSingleServices_p001.induct) (auto simp: dom_update)

lemma keys_addServiceGroups_p001:
  "fst ` set (addServiceGroups_p001 ver gs sel) =
     {n. \<exists>g grp. (g, grp) \<in> set gs \<and> group_Enabled grp \<and> n \<in> set (group_Services grp)}
       \<union> fst ` set sel"
  by (induction ver gs sel rule: addServiceGroups_p001.induct) (auto simp: keys_setServices)

lemma enabledSingle_SomeD:
  "enabledSingle s n = Some info \<Longrightarrow> (n, info) \<in> set (SingleServices s) \<and> Enabled info"
  by (auto simp: enabledSingle_def split: option.splits if_splits dest: map_of_SomeD)

lemma enabledGroup_SomeD:
  "enabledGroup s n = Some grp \<Longrightarrow> (n, grp) \<in> set (ServiceGroups s) \<and> group_Enabled grp"
  by (auto simp: enabledGroup_def split: option.splits if_splits dest: map_of_SomeD)

lemma enabledSingle_enabled:
  "enabledSingle s n = Some info \<Longrightarrow> n \<in> getEnabledServices s"
  by (auto dest!: enabledSingle_SomeD intro: enabled_singleI)

lemma enabledGroup_enabled:
  "enabledGroup s n = Some grp \<Longrightarrow> set (group_Services grp) \<subseteq> getEnabledServices s"
  by (auto dest!: enabledGroup_SomeD intro: enabled_groupI)

lemma keys_selectOne:
  "fst ` set (selectOne s ver t sel) \<subseteq> getEnabledServices s \<union> fst ` set sel"
  using enabledSingle_enabled [of s t] enabledGroup_enabled [of s t]
  by (auto simp: selectOne_def Let_def keys_setServices dom_update split: option.splits)

lemma keys_selectListed:
  "fst ` set (selectListed s ver ts sel) \<subseteq> getEnabledServices s \<union> fst ` set sel"
proof (induction ts arbitrary: sel)
  case Nil then show ?case by simp
next
  case (Cons t ts)
  from Cons.IH [of "selectOne s ver t sel"] keys_selectOne [of s ver t sel]
  show ?case by auto
qed

lemma keys_selectOne_p001:
  "fst ` set (fst (selectOne_p001 s ver t st)) \<subseteq> getEnabledServices s \<union> fst ` set (fst st)"
  using enabledSingle_enabled [of s "TrimSpace t"] enabledGroup_enabled [of s "TrimSpace t"]
  by (auto simp: selectOne_p001_def Let_def keys_setServices dom_update split: option.splits)

lemma keys_selectListed_p001:
  "fst ` set (fst (selectListed_p001 s ver ts st)) \<subseteq> getEnabledServices s \<union> fst ` set (fst st)"
proof (induction ts arbitrary: st)
  case Nil then show ?case by simp
next
  case (Cons t ts)
  from Cons.IH [of "selectOne_p001 s ver t st"] keys_selectOne_p001 [of s ver t st]
  show ?case by auto
qed

lemma keys_getSelectedServices:
  "fst ` set (getSelectedServices s inp ver) \<subseteq> getEnabledServices s"
  using keys_selectListed [of s ver _ "[]"]
  by (auto simp: getSelectedServices_def keys_addSingleServices keys_addServiceGroups
                 getEnabledServices_iff)

lemma keys_getSelectedServices_p001:
  "fst ` set (fst (getSelectedServices_p001 s inp ver tr)) \<subseteq> getEnabledServices s"
  using keys_selectListed_p001 [of s ver _ "([], tr)"]
  by (auto simp: getSelectedServices_p001_def keys_addSingleServices_p001
                 keys_addServiceGroups_p001 getEnabledServices_iff)



subsection \<open>The version given on the command line\<close>

lemma selectVersion_override: "ver \<noteq> [] \<Longrightarrow> selectVersion ver d = ver"
  by (simp add: selectVersion_def)

lemma set_update_subset: "set (AList.update k v al) \<subseteq> insert (k, v) (set al)"
  by (induction al) auto

lemma values_update:
  "\<forall>e\<in>set sel. snd e = ver \<Longrightarrow> \<forall>e\<in>set (AList.update n ver sel). snd e = ver"
  using set_update_subset [of n ver sel] by auto

lemma values_setServices:
  "\<forall>e\<in>set sel. snd e = ver \<Longrightarrow> \<forall>e\<in>set (setServices ms ver sel). snd e = ver"
proof (induction ms arbitrary: sel)
  case Nil then show ?case by simp
next
  case (Cons m ms)
  from Cons.prems have "\<forall>e\<in>set (AList.update m ver sel). snd e = ver" by (rule values_update)
  then show ?case using Cons.IH by simp
qed

lemma values_addSingleServices_p001:
  "ver \<noteq> [] \<Longrightarrow> \<forall>e\<in>set sel. snd e = ver \<Longrightarrow>
   \<forall>e\<in>set (addSingleServices_p001 ver ss sel). snd e = ver"
proof (induction ver ss sel rule: addSingleServices_p001.induct)
  case (1 ver sel) then show ?case by simp
next
  case (2 ver service info rest sel)
  from 2(3) have "\<forall>e\<in>set (AList.update service ver sel). snd e = ver" by (rule values_update)
  with 2 show ?case by (simp add: selectVersion_override)
qed

lemma values_addServiceGroups_p001:
  "ver \<noteq> [] \<Longrightarrow> \<forall>e\<in>set sel. snd e = ver \<Longrightarrow>
   \<forall>e\<in>set (addServiceGroups_p001 ver gs sel). snd e = ver"
proof (induction ver gs sel rule: addServiceGroups_p001.induct)
  case (1 ver sel) then show ?case by simp
next
  case (2 ver name grp rest sel)
  from 2(3) have "\<forall>e\<in>set (setServices (group_Services grp) ver sel). snd e = ver"
    by (rule values_setServices)
  with 2 show ?case by (simp add: selectVersion_override)
qed

lemma values_selectOne_p001:
  assumes "ver \<noteq> []" "\<forall>e\<in>set (fst st). snd e = ver"
  shows "\<forall>e\<in>set (fst (selectOne_p001 s ver t st)). snd e = ver"
proof (cases "enabledSingle s (TrimSpace t)")
  case (Some info)
  then have "fst (selectOne_p001 s ver t st) = AList.update (TrimSpace t) ver (fst st)"
    using assms(1) by (simp add: selectOne_p001_def Let_def selectVersion_override)
  then show ?thesis using values_update [OF assms(2)] by simp
next
  case None
  show ?thesis
  proof (cases "enabledGroup s (TrimSpace t)")
    case (Some grp)
    with None have "fst (selectOne_p001 s ver t st) = setServices (group_Services grp) ver (fst st)"
      using assms(1) by (simp add: selectOne_p001_def Let_def selectVersion_override)
    then show ?thesis using values_setServices [OF assms(2)] by simp
  next
    case N: None
    with None have "fst (selectOne_p001 s ver t st) = fst st"
      by (simp add: selectOne_p001_def Let_def)
    then show ?thesis using assms(2) by simp
  qed
qed

lemma values_selectListed_p001:
  "ver \<noteq> [] \<Longrightarrow> \<forall>e\<in>set (fst st). snd e = ver \<Longrightarrow>
   \<forall>e\<in>set (fst (selectListed_p001 s ver ts st)). snd e = ver"
proof (induction ts arbitrary: st)
  case Nil then show ?case by simp
next
  case (Cons t ts)
  from Cons.prems have "\<forall>e\<in>set (fst (selectOne_p001 s ver t st)). snd e = ver"
    by (rule values_selectOne_p001)
  with Cons.prems(1) Cons.IH show ?case by simp
qed

lemma values_selectOne:
  assumes "ver \<noteq> []" "\<forall>e\<in>set sel. snd e = ver"
  shows "\<forall>e\<in>set (selectOne s ver t sel). snd e = ver"
proof -
  define sel1 where "sel1 = (case enabledSingle s t of
                 Some info \<Rightarrow> AList.update t (selectVersion ver (Version info)) sel
               | None \<Rightarrow> sel)"
  have 1: "\<forall>e\<in>set sel1. snd e = ver"
  proof (cases "enabledSingle s t")
    case None then show ?thesis using assms(2) by (simp add: sel1_def)
  next
    case (Some info)
    then have "sel1 = AList.update t ver sel"
      using assms(1) by (simp add: sel1_def selectVersion_override)
    then show ?thesis using values_update [OF assms(2)] by simp
  qed
  show ?thesis
  proof (cases "enabledGroup s t")
    case None
    then have "selectOne s ver t sel = sel1" by (simp add: selectOne_def sel1_def)
    then show ?thesis using 1 by simp
  next
    case (Some grp)
    then have "selectOne s ver t sel = setServices (group_Services grp) ver sel1"
      using assms(1) by (simp add: selectOne_def sel1_def selectVersion_override)
    then show ?thesis using values_setServices [OF 1] by simp
  qed
qed

lemma values_selectListed:
  "ver \<noteq> [] \<Longrightarrow> \<forall>e\<in>set sel. snd e = ver \<Longrightarrow> \<forall>e\<in>set (selectListed s ver ts sel). snd e = ver"
proof (induction ts arbitrary: sel)
  case Nil then show ?case by simp
next
  case (Cons t ts)
  from Cons.prems have "\<forall>e\<in>set (selectOne s ver t sel). snd e = ver"
    by (rule values_selectOne)
  with Cons.prems(1) Cons.IH show ?case by simp
qed

lemma values_getSelectedServices_p001:
  assumes "versionInput \<noteq> []"
  shows "\<forall>e\<in>set (fst (getSelectedServices_p001 s servicesInput versionInput tr)). snd e = versionInput"
proof (cases "servicesInput = []")
  case True
  have "\<forall>e\<in>set ([] :: versions). snd e = versionInput" by simp
  from values_addSingleServices_p001 [OF assms this]
  have "\<forall>e\<in>set (addSingleServices_p001 versionInput (SingleServices s) []). snd e = versionInput" .
  from values_addServiceGroups_p001 [OF assms this] True
  show ?thesis by (simp add: getSelectedServices_p001_def)
next
  case False
  have "\<forall>e\<in>set (fst (([] :: versions), tr)). snd e = versionInput" by simp
  from values_selectListed_p001 [OF assms this] False
  show ?thesis by (simp add: getSelectedServices_p001_def)
qed

lemma override_wins_part001:
  assumes "versionInput \<noteq> []"
    and "map_of (fst (getSelectedServices_p001 s servicesInput versionInput tr)) n = Some v"
  shows "v = versionInput"
  using values_getSelectedServices_p001 [OF assms(1)] map_of_SomeD [OF assms(2)] by fastforce

lemma override_wins_for_named:
  assumes "versionInput \<noteq> []" and "servicesInput \<noteq> []"
    and "map_of (getSelectedServices s servicesInput versionInput) n = Some v"
  shows "v = versionInput"
proof -
  have "\<forall>e\<in>set ([] :: versions). snd e = versionInput" by simp
  from values_selectListed [OF assms(1) this] assms(2)
  have "\<forall>e\<in>set (getSelectedServices s servicesInput versionInput). snd e = versionInput"
    by (simp add: getSelectedServices_def)
  with map_of_SomeD [OF assms(3)] show ?thesis by fastforce
qed

subsection \<open>Naming every enabled entry\<close>

lemma selectVersion_empty: "selectVersion [] d = d"
  by (simp add: selectVersion_def)

text \<open>Naming the enabled entries in the order of the configuration replays the two loops of the empty scope.\<close>

lemma listed_singles_p001:
  assumes "\<forall>(n, info) \<in> set ss. Enabled info \<longrightarrow> enabledSingle s n = Some info \<and> TrimSpace n = n"
  shows "selectListed_p001 s ver (map fst (filter (\<lambda>e. Enabled (snd e)) ss) @ rest) (sel, tr)
         = selectListed_p001 s ver rest (addSingleServices_p001 ver ss sel, tr)"
  using assms
proof (induction ss arbitrary: sel)
  case Nil then show ?case by simp
next
  case (Cons e ss)
  obtain n info where e: "e = (n, info)" by (cases e)
  show ?case
  proof (cases "Enabled info")
    case True
    with Cons.prems e have "enabledSingle s n = Some info" "TrimSpace n = n" by auto
    with True e Cons.IH [of "AList.update n (selectVersion ver (Version info)) sel"] Cons.prems
    show ?thesis by (simp add: selectOne_p001_def)
  next
    case False
    with e Cons.IH [of sel] Cons.prems show ?thesis by simp
  qed
qed

lemma listed_groups_p001:
  assumes "\<forall>(n, grp) \<in> set gs. group_Enabled grp \<longrightarrow>
             enabledSingle s n = None \<and> enabledGroup s n = Some grp \<and> TrimSpace n = n"
  shows "selectListed_p001 s ver (map fst (filter (\<lambda>e. group_Enabled (snd e)) gs) @ rest) (sel, tr)
         = selectListed_p001 s ver rest (addServiceGroups_p001 ver gs sel, tr)"
  using assms
proof (induction gs arbitrary: sel)
  case Nil then show ?case by simp
next
  case (Cons e gs)
  obtain n grp where e: "e = (n, grp)" by (cases e)
  show ?case
  proof (cases "group_Enabled grp")
    case True
    with Cons.prems e have "enabledSingle s n = None" "enabledGroup s n = Some grp" "TrimSpace n = n"
      by auto
    with True e
      Cons.IH [of "setServices (group_Services grp) (selectVersion ver (group_Version grp)) sel"]
      Cons.prems
    show ?thesis by (simp add: selectOne_p001_def)
  next
    case False
    with e Cons.IH [of sel] Cons.prems show ?thesis by simp
  qed
qed


lemma listed_singles:
  assumes "\<forall>(n, info) \<in> set ss. Enabled info \<longrightarrow> enabledSingle s n = Some info \<and> enabledGroup s n = None"
  shows "selectListed s [] (map fst (filter (\<lambda>e. Enabled (snd e)) ss) @ rest) sel
         = selectListed s [] rest (addSingleServices ss sel)"
  using assms
proof (induction ss arbitrary: sel)
  case Nil then show ?case by simp
next
  case (Cons e ss)
  obtain n info where e: "e = (n, info)" by (cases e)
  show ?case
  proof (cases "Enabled info")
    case True
    with Cons.prems e have "enabledSingle s n = Some info" "enabledGroup s n = None" by auto
    with True e Cons.IH [of "AList.update n (Version info) sel"] Cons.prems
    show ?thesis by (simp add: selectOne_def selectVersion_empty)
  next
    case False
    with e Cons.IH [of sel] Cons.prems show ?thesis by simp
  qed
qed

lemma listed_groups:
  assumes "\<forall>(n, grp) \<in> set gs. group_Enabled grp \<longrightarrow>
             enabledSingle s n = None \<and> enabledGroup s n = Some grp"
  shows "selectListed s [] (map fst (filter (\<lambda>e. group_Enabled (snd e)) gs) @ rest) sel
         = selectListed s [] rest (addServiceGroups gs sel)"
  using assms
proof (induction gs arbitrary: sel)
  case Nil then show ?case by simp
next
  case (Cons e gs)
  obtain n grp where e: "e = (n, grp)" by (cases e)
  show ?case
  proof (cases "group_Enabled grp")
    case True
    with Cons.prems e have "enabledSingle s n = None" "enabledGroup s n = Some grp" by auto
    with True e Cons.IH [of "setServices (group_Services grp) (group_Version grp) sel"] Cons.prems
    show ?thesis by (simp add: selectOne_def selectVersion_empty)
  next
    case False
    with e Cons.IH [of sel] Cons.prems show ?thesis by simp
  qed
qed

text \<open>The lookups of a configuration whose keys are distinct.\<close>

lemma enabledSingle_of_entry:
  "distinct (map fst (SingleServices s)) \<Longrightarrow> (n, info) \<in> set (SingleServices s) \<Longrightarrow> Enabled info
   \<Longrightarrow> enabledSingle s n = Some info"
  by (simp add: enabledSingle_def)

lemma enabledGroup_of_entry:
  "distinct (map fst (ServiceGroups s)) \<Longrightarrow> (n, grp) \<in> set (ServiceGroups s) \<Longrightarrow> group_Enabled grp
   \<Longrightarrow> enabledGroup s n = Some grp"
  by (simp add: enabledGroup_def)

lemma enabledSingle_names:
  "enabledSingle s n = Some info \<Longrightarrow> n \<in> set (enabledSingleNames s)"
  by (force dest!: enabledSingle_SomeD simp: enabledSingleNames_def)

lemma enabledGroup_names:
  "enabledGroup s n = Some grp \<Longrightarrow> n \<in> set (enabledGroupNames s)"
  by (force dest!: enabledGroup_SomeD simp: enabledGroupNames_def)

lemma in_enabledSingleNames:
  "(n, info) \<in> set (SingleServices s) \<Longrightarrow> Enabled info \<Longrightarrow> n \<in> set (enabledSingleNames s)"
  by (force simp: enabledSingleNames_def)

lemma in_enabledGroupNames:
  "(n, grp) \<in> set (ServiceGroups s) \<Longrightarrow> group_Enabled grp \<Longrightarrow> n \<in> set (enabledGroupNames s)"
  by (force simp: enabledGroupNames_def)

lemma single_entry:
  assumes "distinct (map fst (SingleServices s))"
    and "set (enabledSingleNames s) \<inter> set (enabledGroupNames s) = {}"
    and "(n, info) \<in> set (SingleServices s)" "Enabled info"
  shows "enabledSingle s n = Some info \<and> enabledGroup s n = None"
proof
  show "enabledSingle s n = Some info" using assms(1,3,4) by (rule enabledSingle_of_entry)
  have "n \<in> set (enabledSingleNames s)" using assms(3,4) by (rule in_enabledSingleNames)
  with assms(2) have "n \<notin> set (enabledGroupNames s)" by auto
  then show "enabledGroup s n = None"
    using enabledGroup_names [of s n] by (cases "enabledGroup s n") auto
qed

lemma group_entry:
  assumes "distinct (map fst (ServiceGroups s))"
    and "set (enabledSingleNames s) \<inter> set (enabledGroupNames s) = {}"
    and "(n, grp) \<in> set (ServiceGroups s)" "group_Enabled grp"
  shows "enabledSingle s n = None \<and> enabledGroup s n = Some grp"
proof
  show "enabledGroup s n = Some grp" using assms(1,3,4) by (rule enabledGroup_of_entry)
  have "n \<in> set (enabledGroupNames s)" using assms(3,4) by (rule in_enabledGroupNames)
  with assms(2) have "n \<notin> set (enabledSingleNames s)" by auto
  then show "enabledSingle s n = None"
    using enabledSingle_names [of s n] by (cases "enabledSingle s n") auto
qed



section \<open>Properties of the cluster state reader\<close>

lemma recordLine_cases:
  "recordLine en line vs = vs \<or>
   (\<exists>n a v. line = n @ CHR 0x09 # a @ CHR '':'' # v \<and> n \<in> en \<and>
            CHR '':'' \<notin> set a \<and> CHR '':'' \<notin> set v \<and> recordLine en line vs = AList.update n v vs)"
proof (cases "recordLine en line vs = vs")
  case True then show ?thesis by simp
next
  case False
  then have ne: "line \<noteq> []" and l2: "length (Split line (CHR 0x09)) = 2"
    by (auto simp: recordLine_def Let_def split: if_splits)
  then obtain n img where p: "Split line (CHR 0x09) = [n, img]"
    by (auto simp: length_two)
  with False ne have en: "n \<in> en" and i2: "length (Split img CHR '':'') = 2"
    by (auto simp: recordLine_def Let_def split: if_splits)
  then obtain a v where ip: "Split img CHR '':'' = [a, v]"
    by (auto simp: length_two)
  from p have "line = n @ CHR 0x09 # img" by (simp add: Split_two)
  moreover from ip have "img = a @ CHR '':'' # v" "CHR '':'' \<notin> set a" "CHR '':'' \<notin> set v"
    by (simp_all add: Split_two)
  moreover have "recordLine en line vs = AList.update n v vs"
    using ne p en ip by (simp add: recordLine_def)
  ultimately show ?thesis using en by blast
qed

lemma recordLine_other:
  assumes "take (Suc (length n)) line \<noteq> n @ [CHR 0x09]"
  shows "map_of (recordLine en line vs) n = map_of vs n"
proof -
  from recordLine_cases [of en line vs]
  show ?thesis
  proof
    assume "recordLine en line vs = vs" then show ?thesis by simp
  next
    assume "\<exists>k a v. line = k @ CHR 0x09 # a @ CHR '':'' # v \<and> k \<in> en \<and>
            CHR '':'' \<notin> set a \<and> CHR '':'' \<notin> set v \<and> recordLine en line vs = AList.update k v vs"
    then obtain k a v where l: "line = k @ CHR 0x09 # a @ CHR '':'' # v"
      and r: "recordLine en line vs = AList.update k v vs" by blast
    from l assms have "k \<noteq> n" by auto
    with r show ?thesis by (simp add: update_conv')
  qed
qed

lemma recordLine_sound:
  assumes "map_of (recordLine en line vs) k = Some x"
  shows "map_of vs k = Some x \<or>
         (k \<in> en \<and> (\<exists>a. line = k @ CHR 0x09 # a @ CHR '':'' # x \<and>
                          CHR '':'' \<notin> set a \<and> CHR '':'' \<notin> set x))"
  using recordLine_cases [of en line vs] assms
  by (auto simp: update_conv' split: if_splits)

lemma recordLines_sound:
  assumes "map_of (recordLines en lines vs) k = Some x"
  shows "map_of vs k = Some x \<or>
         (k \<in> en \<and> (\<exists>a. k @ CHR 0x09 # a @ CHR '':'' # x \<in> set lines \<and>
                          CHR '':'' \<notin> set a \<and> CHR '':'' \<notin> set x))"
  using assms
proof (induction lines arbitrary: vs)
  case Nil then show ?case by simp
next
  case (Cons line lines)
  from Cons.IH [of "recordLine en line vs"] Cons.prems
  have "map_of (recordLine en line vs) k = Some x \<or>
         (k \<in> en \<and> (\<exists>a. k @ CHR 0x09 # a @ CHR '':'' # x \<in> set lines \<and>
                          CHR '':'' \<notin> set a \<and> CHR '':'' \<notin> set x))" by simp
  then show ?case
  proof
    assume "map_of (recordLine en line vs) k = Some x"
    from recordLine_sound [OF this] show ?thesis by auto
  next
    assume "k \<in> en \<and> (\<exists>a. k @ CHR 0x09 # a @ CHR '':'' # x \<in> set lines \<and>
                          CHR '':'' \<notin> set a \<and> CHR '':'' \<notin> set x)"
    then show ?thesis by auto
  qed
qed

lemma recordLines_keep:
  assumes "map_of vs n = Some v"
    and "\<And>l vs'. l \<in> set lines \<Longrightarrow> take (Suc (length n)) l = n @ [CHR 0x09] \<Longrightarrow>
            recordLine en l vs' = AList.update n v vs'"
  shows "map_of (recordLines en lines vs) n = Some v"
  using assms
proof (induction lines arbitrary: vs)
  case Nil then show ?case by simp
next
  case (Cons line lines)
  have "map_of (recordLine en line vs) n = Some v"
  proof (cases "take (Suc (length n)) line = n @ [CHR 0x09]")
    case True
    have "recordLine en line vs = AList.update n v vs"
      by (rule Cons.prems(2)) (simp_all add: True)
    then show ?thesis by (simp add: update_conv')
  next
    case False
    then show ?thesis using Cons.prems(1) by (simp add: recordLine_other)
  qed
  moreover have "\<And>l vs'. l \<in> set lines \<Longrightarrow> take (Suc (length n)) l = n @ [CHR 0x09] \<Longrightarrow>
            recordLine en l vs' = AList.update n v vs'"
    by (rule Cons.prems(2)) simp_all
  ultimately show ?case using Cons.IH [of "recordLine en line vs"] by simp
qed

lemma recordLines_complete:
  assumes "line \<in> set lines" and rec: "\<And>vs'. recordLine en line vs' = AList.update n v vs'"
    and uniq: "\<And>l. l \<in> set lines \<Longrightarrow> take (Suc (length n)) l = n @ [CHR 0x09] \<Longrightarrow> l = line"
  shows "map_of (recordLines en lines vs) n = Some v"
  using assms(1) uniq
proof (induction lines arbitrary: vs)
  case Nil then show ?case by simp
next
  case (Cons l lines)
  have u: "l' = line" if "l' \<in> set lines" "take (Suc (length n)) l' = n @ [CHR 0x09]" for l'
    by (rule Cons.prems(2)) (simp_all add: that)
  show ?case
  proof (cases "l = line")
    case True
    have 1: "map_of (recordLine en l vs) n = Some v"
      unfolding True rec by (simp add: update_conv')
    have 2: "recordLine en l' vs' = AList.update n v vs'"
      if "l' \<in> set lines" "take (Suc (length n)) l' = n @ [CHR 0x09]" for l' vs'
      using u [OF that] rec by simp
    from recordLines_keep [OF 1 2] show ?thesis by simp
  next
    case False
    with Cons.prems(1) have "line \<in> set lines" by simp
    from Cons.IH [OF this u] show ?thesis by simp
  qed
qed

lemma keys_recordLine:
  "fst ` set (recordLine en l vs) \<subseteq> en \<union> fst ` set vs"
proof -
  from recordLine_cases [of en l vs]
  show ?thesis
  proof
    assume "recordLine en l vs = vs" then show ?thesis by auto
  next
    assume "\<exists>n a v. l = n @ CHR 0x09 # a @ CHR '':'' # v \<and> n \<in> en \<and>
            CHR '':'' \<notin> set a \<and> CHR '':'' \<notin> set v \<and> recordLine en l vs = AList.update n v vs"
    then obtain n v where "n \<in> en" "recordLine en l vs = AList.update n v vs" by blast
    then show ?thesis by (auto simp: dom_update)
  qed
qed

lemma keys_recordLines:
  "fst ` set (recordLines en lines vs) \<subseteq> en \<union> fst ` set vs"
proof (induction lines arbitrary: vs)
  case Nil then show ?case by simp
next
  case (Cons l lines)
  from Cons.IH [of "recordLine en l vs"] keys_recordLine [of en l vs]
  show ?case by auto
qed

lemma afterLast_append: "c \<notin> set v \<Longrightarrow> afterLast c (a @ c # v) = v"
  by (simp add: afterLast_def takeWhile_append)

lemma one_colon:
  "count_list img c = 1 \<longleftrightarrow> (\<exists>a v. Split img c = [a, v])"
  using length_Split [of img c] by (auto simp: length_two [symmetric])

lemma Split_one:
  assumes "count_list img c = 1"
  shows "\<exists>a. Split img c = [a, afterLast c img] \<and> img = a @ c # afterLast c img"
proof -
  from assms have "\<exists>a v. Split img c = [a, v]" by (simp only: one_colon)
  then obtain a v where s: "Split img c = [a, v]" by blast
  then have "img = a @ c # v" "c \<notin> set v" by (simp_all add: Split_two)
  with s show ?thesis by (auto simp: afterLast_append)
qed

lemma recordLine_one_colon:
  assumes "n \<in> en" "CHR 0x09 \<notin> set n" "CHR 0x09 \<notin> set img" "count_list img CHR '':'' = 1"
  shows "recordLine en (n @ CHR 0x09 # img) vs = AList.update n (afterLast CHR '':'' img) vs"
proof -
  from Split_one [OF assms(4)] obtain a
    where a: "Split img CHR '':'' = [a, afterLast CHR '':'' img]" by blast
  have "Split (n @ CHR 0x09 # img) (CHR 0x09) = [n, img]"
    using assms(2,3) by (simp add: Split_two)
  then show ?thesis using assms(1) a by (simp add: recordLine_def)
qed

lemma recordLines_records:
  assumes "n @ CHR 0x09 # img \<in> set lines"
    and "n \<in> en" "CHR 0x09 \<notin> set n" "CHR 0x09 \<notin> set img" "count_list img CHR '':'' = 1"
    and "\<And>l. l \<in> set lines \<Longrightarrow> take (Suc (length n)) l = n @ [CHR 0x09] \<Longrightarrow> l = n @ CHR 0x09 # img"
  shows "map_of (recordLines en lines vs) n = Some (afterLast CHR '':'' img)"
  using assms(1) recordLine_one_colon [OF assms(2-5)] assms(6)
  by (rule recordLines_complete)

lemma recordLines_from_row:
  assumes "map_of (recordLines en lines []) n = Some v"
  shows "n \<in> en \<and> (\<exists>img. n @ CHR 0x09 # img \<in> set lines \<and> count_list img CHR '':'' = 1 \<and>
                           v = afterLast CHR '':'' img)"
proof -
  from recordLines_sound [OF assms] obtain a where
    a: "n \<in> en" "n @ CHR 0x09 # a @ CHR '':'' # v \<in> set lines"
       "CHR '':'' \<notin> set a" "CHR '':'' \<notin> set v" by auto
  have "count_list (a @ CHR '':'' # v) CHR '':'' = 1"
    using a(3,4) by (simp add: count_list_0_iff)
  moreover have "v = afterLast CHR '':'' (a @ CHR '':'' # v)"
    using a(4) by (simp add: afterLast_append)
  ultimately show ?thesis using a(1,2) by blast
qed

lemma getCurrentVersions_ok:
  assumes "w tr (GetDeployment namespace) = (True, output)"
  shows "getCurrentVersions w s namespace [] tr
           = ((None, recordLines (getEnabledServices s) (Split (TrimSpace output) (CHR 0x0A)) []),
              tr @ [Run (GetDeployment namespace)])"
    and "getCurrentVersions_p001 w s namespace tr
           = (Inr (recordLines (getEnabledServices s) (Split (TrimSpace output) (CHR 0x0A)) []),
              tr @ [Run (GetDeployment namespace)])"
  using assms by (simp_all add: getCurrentVersions_def getCurrentVersions_p001_def exec_def)



section \<open>Properties of the runs\<close>

lemma isUpdate_touches: "isUpdate e \<Longrightarrow> touchesDeployments e"
  by (cases e rule: isUpdate.cases) auto

lemma exec_snd [simp]: "snd (exec w c tr) = tr @ [Run c]"
  by (simp add: exec_def)

lemma switchContext_ext:
  "\<exists>ext. snd (switchContext w c tr) = tr @ ext \<and>
         (\<forall>e\<in>set ext. \<not> touchesDeployments e \<and> e \<noteq> Prompt)"
  by (auto simp: switchContext_def exec_def split: prod.splits)

lemma switchContext_p001_snd: "snd (switchContext_p001 w c tr) = tr @ [Run (UseContext c)]"
  by (auto simp: switchContext_p001_def exec_def split: prod.splits)

lemma getCurrentVersions_snd:
  "snd (getCurrentVersions w s ns vs tr) = tr @ [Run (GetDeployment ns)]"
  by (auto simp: getCurrentVersions_def exec_def Let_def split: prod.splits)

lemma getCurrentVersions_p001_snd:
  "snd (getCurrentVersions_p001 w s ns tr) = tr @ [Run (GetDeployment ns)]"
  by (auto simp: getCurrentVersions_p001_def exec_def Let_def split: prod.splits)

lemma selectOne_p001_ext:
  "\<exists>ext. snd (selectOne_p001 s ver t st) = snd st @ ext \<and>
         (\<forall>e\<in>set ext. \<not> touchesDeployments e \<and> e \<noteq> Prompt)"
  by (auto simp: selectOne_p001_def Let_def split: option.splits)

lemma selectListed_p001_ext:
  "\<exists>ext. snd (selectListed_p001 s ver ts st) = snd st @ ext \<and>
         (\<forall>e\<in>set ext. \<not> touchesDeployments e \<and> e \<noteq> Prompt)"
proof (induction ts arbitrary: st)
  case Nil
  then show ?case by simp
next
  case (Cons t ts)
  obtain e1 where e1: "snd (selectOne_p001 s ver t st) = snd st @ e1"
      "\<forall>e\<in>set e1. \<not> touchesDeployments e \<and> e \<noteq> Prompt"
    using selectOne_p001_ext by blast
  obtain e2 where e2: "snd (selectListed_p001 s ver ts (selectOne_p001 s ver t st))
                        = snd (selectOne_p001 s ver t st) @ e2"
      "\<forall>e\<in>set e2. \<not> touchesDeployments e \<and> e \<noteq> Prompt"
    using Cons.IH by blast
  from e1 e2 have "snd (selectListed_p001 s ver (t # ts) st) = snd st @ (e1 @ e2)"
    by simp
  moreover from e1 e2 have "\<forall>e\<in>set (e1 @ e2). \<not> touchesDeployments e \<and> e \<noteq> Prompt"
    by auto
  ultimately show ?case by blast
qed

lemma getSelectedServices_p001_ext:
  "\<exists>ext. snd (getSelectedServices_p001 s si vi tr) = tr @ ext \<and>
         (\<forall>e\<in>set ext. \<not> touchesDeployments e \<and> e \<noteq> Prompt)"
  using selectListed_p001_ext [of s vi _ "([], tr)"]
  by (auto simp: getSelectedServices_p001_def)

lemma selectOne_p001_fst:
  "fst (selectOne_p001 s ver t (sel, tr)) = fst (selectOne_p001 s ver t (sel, tr'))"
  by (auto simp: selectOne_p001_def Let_def split: option.splits)

lemma selectListed_p001_fst:
  "fst (selectListed_p001 s ver ts (sel, tr)) = fst (selectListed_p001 s ver ts (sel, tr'))"
proof (induction ts arbitrary: sel tr tr')
  case Nil then show ?case by simp
next
  case (Cons t ts)
  obtain a b where a: "selectOne_p001 s ver t (sel, tr) = (a, b)"
    by (cases "selectOne_p001 s ver t (sel, tr)")
  obtain a' b' where b: "selectOne_p001 s ver t (sel, tr') = (a', b')"
    by (cases "selectOne_p001 s ver t (sel, tr')")
  from a b selectOne_p001_fst [of s ver t sel tr tr'] have "a = a'" by simp
  with a b Cons.IH [of a b b'] show ?case by simp
qed

lemma getSelectedServices_p001_fst:
  "fst (getSelectedServices_p001 s si vi tr) = fst (getSelectedServices_p001 s si vi [])"
  using selectListed_p001_fst [of s vi _ "[]" tr "[]"]
  by (simp add: getSelectedServices_p001_def)

lemma deployService_ext:
  "\<exists>ext. snd (deployService w service registry ns ver tr) = tr @ ext \<and> Prompt \<notin> set ext"
  by (auto simp: deployService_def exec_def Let_def split: prod.splits)

lemma deployAll_ext:
  "\<exists>ext. snd (deployAll w envConfig sel st) = snd st @ ext \<and> Prompt \<notin> set ext"
proof (induction sel arbitrary: st)
  case Nil then show ?case by simp
next
  case (Cons p sel)
  obtain service ver where p: "p = (service, ver)" by (cases p)
  obtain rs tr where st: "st = (rs, tr)" by (cases st)
  obtain r tr1 where d: "deployService w service (Registry envConfig) (Namespace envConfig) ver tr = (r, tr1)"
    by (cases "deployService w service (Registry envConfig) (Namespace envConfig) ver tr")
  obtain e1 where e1: "tr1 = tr @ e1" "Prompt \<notin> set e1"
    using deployService_ext [of w service "Registry envConfig" "Namespace envConfig" ver tr] d by auto
  obtain e2 where e2: "snd (deployAll w envConfig sel (rs @ [r], tr1 @ [Log (MDeployResult r)]))
                        = (tr1 @ [Log (MDeployResult r)]) @ e2" "Prompt \<notin> set e2"
    using Cons.IH [of "(rs @ [r], tr1 @ [Log (MDeployResult r)])"] by auto
  show ?case
    apply (rule exI [of _ "e1 @ [Log (MDeployResult r)] @ e2"])
    using p st d e1 e2 by simp
qed

lemma applyUpdates_ext:
  "\<exists>ext. snd (applyUpdates w services envConfig cur sel tr) = tr @ ext"
proof -
  obtain rs tr1 where d: "deployAll w envConfig sel ([], tr @ [Log MConfirmed, Print MConfirmed]) = (rs, tr1)"
    by (cases "deployAll w envConfig sel ([], tr @ [Log MConfirmed, Print MConfirmed])")
  obtain e1 where e1: "tr1 = (tr @ [Log MConfirmed, Print MConfirmed]) @ e1"
    using deployAll_ext [of w envConfig sel "([], tr @ [Log MConfirmed, Print MConfirmed])"] d by auto
  show ?thesis
    using d e1
    by (auto simp: applyUpdates_def getCurrentVersions_def exec_def Let_def
             split: prod.splits option.splits)
qed

lemma before_prompt:
  "filter isUpdate pre = [] \<Longrightarrow>
   filter isUpdate (takeWhile (\<lambda>e. e \<noteq> Prompt) (pre @ Prompt # post)) = []"
  by (auto simp: filter_empty_conv takeWhile_append dest: set_takeWhileD)

lemma before_prompt_none:
  "filter isUpdate tr = [] \<Longrightarrow> filter isUpdate (takeWhile (\<lambda>e. e \<noteq> Prompt) tr) = []"
  by (auto simp: filter_empty_conv dest: set_takeWhileD)

text \<open>The three ways \<open>deployIn\<close> can go.\<close>

lemma deployIn_unfold:
  assumes g: "getCurrentVersions w services (Namespace envConfig) [] tr = ((err, cur), tr1)"
    and tr2_def: "tr2 = (case err of Some e \<Rightarrow> tr1 @ [Log (MWarnCurrent e), Print (MWarnCurrent e)]
                             | None \<Rightarrow> tr1)"
    and sel_def: "sel = getSelectedServices services si vi"
  shows "deployIn w services response envConfig si vi tr =
     (if sel = [] then (Some NoServicesToDeploy, tr2 @ [Log MNoServices])
      else if ToLower response \<noteq> ''y''
      then (None, tr2 @ [Log (MSelected sel), Print (MPreview cur sel), Prompt,
                         Log MCancelled, Print MCancelled])
      else applyUpdates w services envConfig cur sel
             (tr2 @ [Log (MSelected sel), Print (MPreview cur sel), Prompt]))"
  using g by (simp add: deployIn_def confirmDeploy_def Let_def tr2_def sel_def)

lemma deployIn_summary:
  assumes tr: "filter isUpdate tr = []" and np: "Prompt \<notin> set tr"
  shows "filter isUpdate (takeWhile (\<lambda>e. e \<noteq> Prompt) (snd (deployIn w services response envConfig si vi tr))) = [] \<and>
         (ToLower response \<noteq> ''y'' \<longrightarrow> filter isUpdate (snd (deployIn w services response envConfig si vi tr)) = []) \<and>
         (ToLower response \<noteq> ''y'' \<and> Prompt \<in> set (snd (deployIn w services response envConfig si vi tr)) \<longrightarrow>
            fst (deployIn w services response envConfig si vi tr) = None \<and> Log MCancelled \<in> set (snd (deployIn w services response envConfig si vi tr))) \<and>
         (getSelectedServices services si vi = [] \<longrightarrow>
            fst (deployIn w services response envConfig si vi tr) = Some NoServicesToDeploy \<and> filter isUpdate (snd (deployIn w services response envConfig si vi tr)) = [])"
proof -
  obtain err cur tr1 where g: "getCurrentVersions w services (Namespace envConfig) [] tr = ((err, cur), tr1)"
    by (cases "getCurrentVersions w services (Namespace envConfig) [] tr") auto
  have tr1: "tr1 = tr @ [Run (GetDeployment (Namespace envConfig))]"
    using getCurrentVersions_snd [of w services "Namespace envConfig" "[]" tr] g by simp
  define tr2 where "tr2 = (case err of Some e \<Rightarrow> tr1 @ [Log (MWarnCurrent e), Print (MWarnCurrent e)]
                             | None \<Rightarrow> tr1)"
  define sel where "sel = getSelectedServices services si vi"
  have tr2: "filter isUpdate tr2 = []" "Prompt \<notin> set tr \<Longrightarrow> Prompt \<notin> set tr2"
    using tr tr1 by (auto simp: tr2_def split: option.splits)
  note u = deployIn_unfold [OF g tr2_def sel_def]
  let ?pre = "tr2 @ [Log (MSelected sel), Print (MPreview cur sel)]"
  obtain ext where ext: "snd (applyUpdates w services envConfig cur sel (?pre @ [Prompt]))
                          = (?pre @ [Prompt]) @ ext"
    using applyUpdates_ext by blast
  have pre: "filter isUpdate ?pre = []" using tr2 by simp
  have A: "filter isUpdate (takeWhile (\<lambda>e. e \<noteq> Prompt) (snd (deployIn w services response envConfig si vi tr))) = []"
  proof (cases "sel = [] \<or> ToLower response \<noteq> ''y''")
    case True
    then have "filter isUpdate (snd (deployIn w services response envConfig si vi tr)) = []"
      using u tr2 by auto
    then show ?thesis by (rule before_prompt_none)
  next
    case False
    then have "snd (deployIn w services response envConfig si vi tr) = ?pre @ Prompt # ext"
      using u ext by simp
    then show ?thesis using before_prompt [OF pre] by simp
  qed
  have B: "ToLower response \<noteq> ''y'' \<Longrightarrow>
           filter isUpdate (snd (deployIn w services response envConfig si vi tr)) = []"
    using u tr2 by auto
  have C: "ToLower response \<noteq> ''y'' \<Longrightarrow> Prompt \<notin> set tr \<Longrightarrow>
           Prompt \<in> set (snd (deployIn w services response envConfig si vi tr)) \<Longrightarrow>
           fst (deployIn w services response envConfig si vi tr) = None \<and>
           Log MCancelled \<in> set (snd (deployIn w services response envConfig si vi tr))"
    using u tr2 by (auto split: if_splits)
  have D: "getSelectedServices services si vi = [] \<Longrightarrow>
           fst (deployIn w services response envConfig si vi tr) = Some NoServicesToDeploy \<and>
           filter isUpdate (snd (deployIn w services response envConfig si vi tr)) = [] \<and>
           (\<exists>pre. snd (deployIn w services response envConfig si vi tr) = pre @ [Log MNoServices])"
    using u tr2 by (auto simp: sel_def)
  from A B C D np show ?thesis by blast
qed

lemma deployService_p001_ext:
  "\<exists>ext. snd (deployService_p001 w service registry ns ver tr) = tr @ ext"
  by (auto simp: deployService_p001_def exec_def Let_def split: prod.splits)

lemma deployAll_p001_ext:
  "\<exists>ext. snd (deployAll_p001 w envConfig sel st) = snd st @ ext"
proof (induction sel arbitrary: st)
  case Nil then show ?case by simp
next
  case (Cons p sel)
  obtain service ver where p: "p = (service, ver)" by (cases p)
  obtain errs tr where st: "st = (errs, tr)" by (cases st)
  obtain r tr1 where d: "deployService_p001 w service (Registry envConfig) (Namespace envConfig) ver tr = (r, tr1)"
    by (cases "deployService_p001 w service (Registry envConfig) (Namespace envConfig) ver tr")
  obtain e1 where e1: "tr1 = tr @ e1"
    using deployService_p001_ext [of w service "Registry envConfig" "Namespace envConfig" ver tr] d by auto
  obtain e2 where e2: "snd (deployAll_p001 w envConfig sel
                              (case r of Some err \<Rightarrow> errs @ [err] | None \<Rightarrow> errs, tr1)) = tr1 @ e2"
    using Cons.IH [of "(case r of Some err \<Rightarrow> errs @ [err] | None \<Rightarrow> errs, tr1)"] by auto
  show ?case
    apply (rule exI [of _ "e1 @ e2"])
    using p st d e1 e2 by (cases r) simp_all
qed

lemma applyUpdates_p001_ext:
  "\<exists>ext. snd (applyUpdates_p001 w services envConfig cur sel tr) = tr @ ext"
proof -
  obtain errs tr1 where d: "deployAll_p001 w envConfig sel ([], tr @ [Log MConfirmed, Print MConfirmed]) = (errs, tr1)"
    by (cases "deployAll_p001 w envConfig sel ([], tr @ [Log MConfirmed, Print MConfirmed])")
  obtain e1 where e1: "tr1 = (tr @ [Log MConfirmed, Print MConfirmed]) @ e1"
    using deployAll_p001_ext [of w envConfig sel "([], tr @ [Log MConfirmed, Print MConfirmed])"] d by auto
  show ?thesis
    using d e1
    by (auto simp: applyUpdates_p001_def getCurrentVersions_p001_def exec_def Let_def
             split: prod.splits sum.splits)
qed

lemma deployIn_p001_unfold:
  assumes g: "getCurrentVersions_p001 w services (Namespace envConfig) tr = (res, tr1)"
    and cur_def: "cur = (case res of Inl e \<Rightarrow> [] | Inr v \<Rightarrow> v)"
    and tr2_def: "tr2 = (case res of Inl e \<Rightarrow> tr1 @ [Log (MWarnCurrent e), Print (MWarnCurrent e)]
                             | Inr v \<Rightarrow> tr1)"
    and s: "getSelectedServices_p001 services si vi tr2 = (sel, tr3)"
  shows "deployIn_p001 w services response envConfig si vi tr =
     (if sel = [] then (Some NoServicesToDeploy, tr3)
      else if ToLower response \<noteq> ''y''
      then (None, tr3 @ [Log (MSelected sel), Print (MPreview cur sel), Prompt,
                         Log MCancelled, Print MCancelled])
      else applyUpdates_p001 w services envConfig cur sel
             (tr3 @ [Log (MSelected sel), Print (MPreview cur sel), Prompt]))"
  using g s by (cases res) (simp_all add: deployIn_p001_def confirmDeploy_def Let_def tr2_def cur_def)

lemma deployIn_p001_summary:
  assumes tr: "filter isUpdate tr = []" and np: "Prompt \<notin> set tr"
  shows "filter isUpdate (takeWhile (\<lambda>e. e \<noteq> Prompt) (snd (deployIn_p001 w services response envConfig si vi tr))) = [] \<and>
         (ToLower response \<noteq> ''y'' \<longrightarrow> filter isUpdate (snd (deployIn_p001 w services response envConfig si vi tr)) = []) \<and>
         (ToLower response \<noteq> ''y'' \<and> Prompt \<in> set (snd (deployIn_p001 w services response envConfig si vi tr)) \<longrightarrow>
            fst (deployIn_p001 w services response envConfig si vi tr) = None \<and> Log MCancelled \<in> set (snd (deployIn_p001 w services response envConfig si vi tr))) \<and>
         (fst (getSelectedServices_p001 services si vi []) = [] \<longrightarrow>
            fst (deployIn_p001 w services response envConfig si vi tr) = Some NoServicesToDeploy \<and> filter isUpdate (snd (deployIn_p001 w services response envConfig si vi tr)) = [])"
proof -
  obtain res tr1 where g: "getCurrentVersions_p001 w services (Namespace envConfig) tr = (res, tr1)"
    by (cases "getCurrentVersions_p001 w services (Namespace envConfig) tr") auto
  have tr1: "tr1 = tr @ [Run (GetDeployment (Namespace envConfig))]"
    using getCurrentVersions_p001_snd [of w services "Namespace envConfig" tr] g by simp
  define cur where "cur = (case res of Inl e \<Rightarrow> [] | Inr v \<Rightarrow> v)"
  define tr2 where "tr2 = (case res of Inl e \<Rightarrow> tr1 @ [Log (MWarnCurrent e), Print (MWarnCurrent e)]
                             | Inr v \<Rightarrow> tr1)"
  obtain sel tr3 where s: "getSelectedServices_p001 services si vi tr2 = (sel, tr3)"
    by (cases "getSelectedServices_p001 services si vi tr2")
  have sel: "sel = fst (getSelectedServices_p001 services si vi [])"
    using getSelectedServices_p001_fst [of services si vi tr2] s by simp
  obtain e3 where e3: "tr3 = tr2 @ e3" "\<forall>e\<in>set e3. \<not> touchesDeployments e \<and> e \<noteq> Prompt"
    using getSelectedServices_p001_ext [of services si vi tr2] s by auto
  have tr2: "filter isUpdate tr2 = []" "Prompt \<notin> set tr \<Longrightarrow> Prompt \<notin> set tr2"
    using tr tr1 by (auto simp: tr2_def split: sum.splits)
  have tr3: "filter isUpdate tr3 = []" "Prompt \<notin> set tr \<Longrightarrow> Prompt \<notin> set tr3"
    using tr2 e3 by (auto simp: filter_empty_conv dest: isUpdate_touches)
  note u = deployIn_p001_unfold [OF g cur_def tr2_def s]
  let ?pre = "tr3 @ [Log (MSelected sel), Print (MPreview cur sel)]"
  obtain ext where ext: "snd (applyUpdates_p001 w services envConfig cur sel (?pre @ [Prompt]))
                          = (?pre @ [Prompt]) @ ext"
    using applyUpdates_p001_ext by blast
  have pre: "filter isUpdate ?pre = []" using tr3 by simp
  have A: "filter isUpdate (takeWhile (\<lambda>e. e \<noteq> Prompt) (snd (deployIn_p001 w services response envConfig si vi tr))) = []"
  proof (cases "sel = [] \<or> ToLower response \<noteq> ''y''")
    case True
    then have "filter isUpdate (snd (deployIn_p001 w services response envConfig si vi tr)) = []"
      using u tr3 by auto
    then show ?thesis by (rule before_prompt_none)
  next
    case False
    then have "snd (deployIn_p001 w services response envConfig si vi tr) = ?pre @ Prompt # ext"
      using u ext by simp
    then show ?thesis using before_prompt [OF pre] by simp
  qed
  have B: "ToLower response \<noteq> ''y'' \<Longrightarrow>
           filter isUpdate (snd (deployIn_p001 w services response envConfig si vi tr)) = []"
    using u tr3 by auto
  have C: "ToLower response \<noteq> ''y'' \<Longrightarrow> Prompt \<notin> set tr \<Longrightarrow>
           Prompt \<in> set (snd (deployIn_p001 w services response envConfig si vi tr)) \<Longrightarrow>
           fst (deployIn_p001 w services response envConfig si vi tr) = None \<and>
           Log MCancelled \<in> set (snd (deployIn_p001 w services response envConfig si vi tr))"
    using u tr3 by (auto split: if_splits)
  have D: "fst (getSelectedServices_p001 services si vi []) = [] \<Longrightarrow>
           fst (deployIn_p001 w services response envConfig si vi tr) = Some NoServicesToDeploy \<and>
           filter isUpdate (snd (deployIn_p001 w services response envConfig si vi tr)) = []"
    using u tr3 sel by auto
  from A B C D np show ?thesis by blast
qed

lemma switchContext_cases:
  obtains err tr1 ext where "switchContext w c tr = (err, tr1)" "tr1 = tr @ ext"
    "\<forall>e\<in>set ext. \<not> touchesDeployments e \<and> e \<noteq> Prompt"
  using switchContext_ext [of w c tr] by (cases "switchContext w c tr") auto

lemma quiet_no_update:
  "\<forall>e\<in>set ext. \<not> touchesDeployments e \<and> e \<noteq> Prompt \<Longrightarrow> filter isUpdate ext = []"
  by (auto simp: filter_empty_conv dest: isUpdate_touches)


lemma Deploy_summary:
  "filter isUpdate (takeWhile (\<lambda>e. e \<noteq> Prompt)
      (snd (Deploy w config services response env si vi))) = [] \<and>
   (ToLower response \<noteq> ''y'' \<longrightarrow>
      filter isUpdate (snd (Deploy w config services response env si vi)) = []) \<and>
   (ToLower response \<noteq> ''y'' \<and>
    Prompt \<in> set (snd (Deploy w config services response env si vi)) \<longrightarrow>
      fst (Deploy w config services response env si vi) = None \<and>
      Log MCancelled \<in> set (snd (Deploy w config services response env si vi))) \<and>
   (getSelectedServices services si vi = [] \<longrightarrow>
      fst (Deploy w config services response env si vi) \<noteq> None \<and>
      filter isUpdate (snd (Deploy w config services response env si vi)) = [])"
proof (cases "Environments config env")
  case None
  then show ?thesis by (simp add: Deploy_def)
next
  case (Some envConfig)
  let ?tr0 = "[Log (MStart env si vi)]"
  obtain err tr1 ext where sw: "switchContext w (Context envConfig) ?tr0 = (err, tr1)"
      "tr1 = ?tr0 @ ext" "\<forall>e\<in>set ext. \<not> touchesDeployments e \<and> e \<noteq> Prompt"
    by (rule switchContext_cases)
  have q: "filter isUpdate tr1 = []" "Prompt \<notin> set tr1"
    using sw(2,3) quiet_no_update [OF sw(3)] by auto
  show ?thesis
  proof (cases err)
    case (Some e)
    with \<open>Environments config env = Some envConfig\<close> sw(1) q
    show ?thesis by (simp add: Deploy_def before_prompt_none)
  next
    case None
    let ?tr = "tr1 @ [Log (MSwitched (Context envConfig))]"
    have d: "Deploy w config services response env si vi
               = deployIn w services response envConfig si vi ?tr"
      using \<open>Environments config env = Some envConfig\<close> sw(1) None by (simp add: Deploy_def)
    have t: "filter isUpdate ?tr = []" "Prompt \<notin> set ?tr" using q by auto
    show ?thesis
      unfolding d using deployIn_summary [OF t]
      by simp
  qed
qed

lemma switchContext_p001_cases:
  obtains err tr1 where "switchContext_p001 w c tr = (err, tr1)" "tr1 = tr @ [Run (UseContext c)]"
  using switchContext_p001_snd [of w c tr] by (cases "switchContext_p001 w c tr") auto


lemma Deploy_p001_summary:
  "filter isUpdate (takeWhile (\<lambda>e. e \<noteq> Prompt)
      (snd (Deploy_p001 w config services response env si vi))) = [] \<and>
   (ToLower response \<noteq> ''y'' \<longrightarrow>
      filter isUpdate (snd (Deploy_p001 w config services response env si vi)) = []) \<and>
   (ToLower response \<noteq> ''y'' \<and>
    Prompt \<in> set (snd (Deploy_p001 w config services response env si vi)) \<longrightarrow>
      fst (Deploy_p001 w config services response env si vi) = None \<and>
      Log MCancelled \<in> set (snd (Deploy_p001 w config services response env si vi))) \<and>
   (fst (getSelectedServices_p001 services si vi []) = [] \<longrightarrow>
      fst (Deploy_p001 w config services response env si vi) \<noteq> None \<and>
      filter isUpdate (snd (Deploy_p001 w config services response env si vi)) = [])"
proof (cases "Environments config env")
  case None
  then show ?thesis by (simp add: Deploy_p001_def)
next
  case (Some envConfig)
  let ?tr0 = "[Log (MStart env si vi)]"
  obtain err tr1 where sw: "switchContext_p001 w (Context envConfig) ?tr0 = (err, tr1)"
      "tr1 = ?tr0 @ [Run (UseContext (Context envConfig))]"
    by (rule switchContext_p001_cases)
  have q: "filter isUpdate tr1 = []" "Prompt \<notin> set tr1"
    using sw(2) by auto
  show ?thesis
  proof (cases err)
    case (Some e)
    with \<open>Environments config env = Some envConfig\<close> sw(1) q
    show ?thesis by (simp add: Deploy_p001_def before_prompt_none)
  next
    case None
    let ?tr = "tr1 @ [Log (MSwitched (Context envConfig))]"
    have d: "Deploy_p001 w config services response env si vi
               = deployIn_p001 w services response envConfig si vi ?tr"
      using \<open>Environments config env = Some envConfig\<close> sw(1) None by (simp add: Deploy_p001_def)
    have t: "filter isUpdate ?tr = []" "Prompt \<notin> set ?tr" using q by auto
    show ?thesis
      unfolding d using deployIn_p001_summary [OF t]
      by simp
  qed
qed

lemma Check_summary:
  "filter isUpdate (snd (Check w config services env si vi)) = [] \<and>
   (getSelectedServices services si vi = [] \<longrightarrow> fst (Check w config services env si vi) \<noteq> None)"
proof (cases "Environments config env")
  case None
  then show ?thesis by (simp add: Check_def)
next
  case (Some envConfig)
  obtain err tr1 ext where sw: "switchContext w (Context envConfig) [] = (err, tr1)"
      "tr1 = [] @ ext" "\<forall>e\<in>set ext. \<not> touchesDeployments e \<and> e \<noteq> Prompt"
    by (rule switchContext_cases)
  have q: "filter isUpdate tr1 = []"
    using sw(2) quiet_no_update [OF sw(3)] by auto
  obtain e2 cur tr2 where g: "getCurrentVersions w services (Namespace envConfig) [] tr1 = ((e2, cur), tr2)"
    by (cases "getCurrentVersions w services (Namespace envConfig) [] tr1") auto
  have tr2: "tr2 = tr1 @ [Run (GetDeployment (Namespace envConfig))]"
    using getCurrentVersions_snd [of w services "Namespace envConfig" "[]" tr1] g by simp
  show ?thesis
    using Some sw(1) g q tr2
    by (cases err; cases e2) (simp_all add: Check_def Let_def)
qed

lemma Check_p001_summary:
  "filter isUpdate (snd (Check_p001 w config services env si vi)) = [] \<and>
   (fst (getSelectedServices_p001 services si vi []) = [] \<longrightarrow>
      fst (Check_p001 w config services env si vi) \<noteq> None)"
proof (cases "Environments config env")
  case None
  then show ?thesis by (simp add: Check_p001_def)
next
  case (Some envConfig)
  obtain err tr1 where sw: "switchContext_p001 w (Context envConfig) [] = (err, tr1)"
      "tr1 = [] @ [Run (UseContext (Context envConfig))]"
    by (rule switchContext_p001_cases)
  obtain res tr2 where g: "getCurrentVersions_p001 w services (Namespace envConfig) tr1 = (res, tr2)"
    by (cases "getCurrentVersions_p001 w services (Namespace envConfig) tr1") auto
  have tr2: "tr2 = tr1 @ [Run (GetDeployment (Namespace envConfig))]"
    using getCurrentVersions_p001_snd [of w services "Namespace envConfig" tr1] g by simp
  obtain sel tr3 where s: "getSelectedServices_p001 services si vi tr2 = (sel, tr3)"
    by (cases "getSelectedServices_p001 services si vi tr2")
  have sel: "sel = fst (getSelectedServices_p001 services si vi [])"
    using getSelectedServices_p001_fst [of services si vi tr2] s by simp
  obtain e3 where e3: "tr3 = tr2 @ e3" "\<forall>e\<in>set e3. \<not> touchesDeployments e \<and> e \<noteq> Prompt"
    using getSelectedServices_p001_ext [of services si vi tr2] s by auto
  have tr3: "filter isUpdate tr3 = []"
    using sw(2) tr2 e3(1) quiet_no_update [OF e3(2)] by simp
  show ?thesis
    using Some sw g tr2 s sel tr3
    by (cases err; cases res) (simp_all add: Check_p001_def)
qed

subsection \<open>The exit code\<close>

lemma main_Deploy:
  assumes "env \<noteq> []"
  shows "fst (main w config services response False env si vi)
           = (if fst (Deploy w config services response env si vi) = None then 0 else 1) \<and>
         snd (main w config services response False env si vi)
           = snd (Deploy w config services response env si vi) @
             (case fst (Deploy w config services response env si vi) of
                Some err \<Rightarrow> [Print (MFailure err)] | None \<Rightarrow> [])"
proof -
  obtain r tr where d: "Deploy w config services response env si vi = (r, tr)"
    by (cases "Deploy w config services response env si vi")
  show ?thesis using assms d by (cases r) (simp_all add: main_def)
qed

lemma main_Check:
  assumes "env \<noteq> []"
  shows "fst (main w config services response True env si vi)
           = (if fst (Check w config services env si vi) = None then 0 else 1) \<and>
         snd (main w config services response True env si vi)
           = snd (Check w config services env si vi) @
             (case fst (Check w config services env si vi) of
                Some err \<Rightarrow> [Print (MFailure err)] | None \<Rightarrow> [])"
proof -
  obtain r tr where d: "Check w config services env si vi = (r, tr)"
    by (cases "Check w config services env si vi")
  show ?thesis using assms d by (cases r) (simp_all add: main_def)
qed

lemma main_p001_Deploy:
  assumes "env \<noteq> []"
  shows "fst (main_p001 w config services response False env si vi)
           = (if fst (Deploy_p001 w config services response env si vi) = None then 0 else 1) \<and>
         snd (main_p001 w config services response False env si vi)
           = snd (Deploy_p001 w config services response env si vi) @
             (case fst (Deploy_p001 w config services response env si vi) of
                Some err \<Rightarrow> [Print (MFailure err)] | None \<Rightarrow> [])"
proof -
  obtain r tr where d: "Deploy_p001 w config services response env si vi = (r, tr)"
    by (cases "Deploy_p001 w config services response env si vi")
  show ?thesis using assms d by (cases r) (simp_all add: main_p001_def)
qed

lemma main_p001_Check:
  assumes "env \<noteq> []"
  shows "fst (main_p001 w config services response True env si vi)
           = (if fst (Check_p001 w config services env si vi) = None then 0 else 1) \<and>
         snd (main_p001 w config services response True env si vi)
           = snd (Check_p001 w config services env si vi) @
             (case fst (Check_p001 w config services env si vi) of
                Some err \<Rightarrow> [Print (MFailure err)] | None \<Rightarrow> [])"
proof -
  obtain r tr where d: "Check_p001 w config services env si vi = (r, tr)"
    by (cases "Check_p001 w config services env si vi")
  show ?thesis using assms d by (cases r) (simp_all add: main_p001_def)
qed


subsection \<open>Nothing selected\<close>

lemma Deploy_no_services:
  assumes "Environments config env = Some envConfig"
    and "fst (switchContext w (Context envConfig) [Log (MStart env si vi)]) = None"
    and "getSelectedServices services si vi = []"
  shows "fst (Deploy w config services response env si vi) = Some NoServicesToDeploy"
proof -
  obtain tr1 where "switchContext w (Context envConfig) [Log (MStart env si vi)] = (None, tr1)"
    using assms(2) by (cases "switchContext w (Context envConfig) [Log (MStart env si vi)]") auto
  then show ?thesis
    using assms(1,3) by (simp add: Deploy_def deployIn_def Let_def split: prod.splits)
qed

lemma Check_no_services:
  assumes "Environments config env = Some envConfig"
    and "fst (switchContext w (Context envConfig) []) = None"
    and "getSelectedServices services si vi = []"
  shows "fst (Check w config services env si vi) = Some NoServicesToCheck"
proof -
  obtain tr1 where "switchContext w (Context envConfig) [] = (None, tr1)"
    using assms(2) by (cases "switchContext w (Context envConfig) []") auto
  then show ?thesis
    using assms(1,3) by (simp add: Check_def Let_def split: prod.splits)
qed

lemma nothing_selected_p001:
  assumes "fst (getSelectedServices_p001 services si vi []) = []"
    and "getSelectedServices_p001 services si vi tr = (sel, tr')"
  shows "sel = []"
  using getSelectedServices_p001_fst [of services si vi tr] assms by simp

lemma Deploy_p001_no_services:
  assumes "Environments config env = Some envConfig"
    and "fst (switchContext_p001 w (Context envConfig) [Log (MStart env si vi)]) = None"
    and "fst (getSelectedServices_p001 services si vi []) = []"
  shows "fst (Deploy_p001 w config services response env si vi) = Some NoServicesToDeploy"
proof -
  obtain tr1 where sw: "switchContext_p001 w (Context envConfig) [Log (MStart env si vi)] = (None, tr1)"
    using assms(2) by (cases "switchContext_p001 w (Context envConfig) [Log (MStart env si vi)]") auto
  show ?thesis
    using assms(1) sw
    by (auto simp: Deploy_p001_def deployIn_p001_def Let_def split: prod.splits sum.splits
             dest: nothing_selected_p001 [OF assms(3)])
qed

lemma Check_p001_no_services:
  assumes "Environments config env = Some envConfig"
    and "fst (switchContext_p001 w (Context envConfig) []) = None"
    and "fst (w [Run (UseContext (Context envConfig))] (GetDeployment (Namespace envConfig)))"
    and "fst (getSelectedServices_p001 services si vi []) = []"
  shows "fst (Check_p001 w config services env si vi) = Some NoServicesToCheck"
proof -
  obtain tr1 where sw: "switchContext_p001 w (Context envConfig) [] = (None, tr1)"
    using assms(2) by (cases "switchContext_p001 w (Context envConfig) []") auto
  have tr1: "tr1 = [Run (UseContext (Context envConfig))]"
    using switchContext_p001_snd [of w "Context envConfig" "[]"] sw by simp
  show ?thesis
    using assms(1,3) sw tr1
    by (auto simp: Check_p001_def getCurrentVersions_p001_def exec_def Let_def
             split: prod.splits sum.splits dest: nothing_selected_p001 [OF assms(4)])
qed

lemma exit_failure:
  assumes "fst r \<noteq> None"
  shows "\<exists>err. last (snd r @ (case fst r of Some err \<Rightarrow> [Print (MFailure err)] | None \<Rightarrow> []))
           = Print (MFailure err)"
  using assms by (cases "fst r") auto


subsection \<open>The updates\<close>

text \<open>One update for every entry of the target, whatever the outcomes are.\<close>

lemma deployService_updates:
  "filter isUpdate (snd (deployService w service registry ns ver tr))
     = filter isUpdate tr @ [Run (SetImage service (image_of registry service ver) ns)]"
  by (auto simp: deployService_def exec_def Let_def split: prod.splits)

lemma deployService_p001_updates:
  "filter isUpdate (snd (deployService_p001 w service registry ns ver tr))
     = filter isUpdate tr @ [Run (SetImage service (image_of registry service ver) ns)]"
  by (auto simp: deployService_p001_def exec_def Let_def split: prod.splits)

lemma deployAll_updates:
  "filter isUpdate (snd (deployAll w envConfig sel st))
     = filter isUpdate (snd st) @ updatesOf envConfig sel"
proof (induction sel arbitrary: st)
  case Nil then show ?case by (simp add: updatesOf_def)
next
  case (Cons p sel)
  obtain service ver where p: "p = (service, ver)" by (cases p)
  obtain rs tr where st: "st = (rs, tr)" by (cases st)
  obtain r tr1 where d: "deployService w service (Registry envConfig) (Namespace envConfig) ver tr = (r, tr1)"
    by (cases "deployService w service (Registry envConfig) (Namespace envConfig) ver tr")
  have "filter isUpdate tr1 = filter isUpdate tr @
          [Run (SetImage service (image_of (Registry envConfig) service ver) (Namespace envConfig))]"
    using deployService_updates [of w service "Registry envConfig" "Namespace envConfig" ver tr] d
    by simp
  then show ?case
    using p st d Cons.IH [of "(rs @ [r], tr1 @ [Log (MDeployResult r)])"]
    by (simp add: updatesOf_def)
qed

lemma deployAll_p001_updates:
  "filter isUpdate (snd (deployAll_p001 w envConfig sel st))
     = filter isUpdate (snd st) @ updatesOf envConfig sel"
proof (induction sel arbitrary: st)
  case Nil then show ?case by (simp add: updatesOf_def)
next
  case (Cons p sel)
  obtain service ver where p: "p = (service, ver)" by (cases p)
  obtain errs tr where st: "st = (errs, tr)" by (cases st)
  obtain r tr1 where d: "deployService_p001 w service (Registry envConfig) (Namespace envConfig) ver tr = (r, tr1)"
    by (cases "deployService_p001 w service (Registry envConfig) (Namespace envConfig) ver tr")
  have "filter isUpdate tr1 = filter isUpdate tr @
          [Run (SetImage service (image_of (Registry envConfig) service ver) (Namespace envConfig))]"
    using deployService_p001_updates [of w service "Registry envConfig" "Namespace envConfig" ver tr] d
    by simp
  then show ?case
    using p st d Cons.IH [of "(errs @ [the r], tr1)"] Cons.IH [of "(errs, tr1)"]
    by (cases r) (simp_all add: updatesOf_def)
qed

text \<open>In \<open>main.go\<close> the part after the confirmation returns \<open>nil\<close> whatever the updates did.\<close>

lemma applyUpdates_returns_nil:
  "fst (applyUpdates w services envConfig cur sel tr) = None"
  by (simp add: applyUpdates_def Let_def split: prod.splits)

text \<open>In \<open>part_001\<close> it returns the failures, when there are any.\<close>

lemma failures_append: "failures (xs @ ys) = failures xs @ failures ys"
  by (induction xs rule: failures.induct) auto

lemma deployService_p001_failures:
  "deployService_p001 w service registry ns ver tr = (r, tr1) \<Longrightarrow>
   failures tr1 = failures tr @ (case r of Some err \<Rightarrow> [err] | None \<Rightarrow> [])"
  by (auto simp: deployService_p001_def exec_def Let_def failures_append split: prod.splits if_splits)

lemma deployAll_p001_failures:
  "failures (snd st) = pre @ fst st \<Longrightarrow>
   failures (snd (deployAll_p001 w envConfig sel st)) = pre @ fst (deployAll_p001 w envConfig sel st)"
proof (induction sel arbitrary: st)
  case Nil then show ?case by simp
next
  case (Cons p sel)
  obtain service ver where p: "p = (service, ver)" by (cases p)
  obtain errs tr where st: "st = (errs, tr)" by (cases st)
  obtain r tr1 where d: "deployService_p001 w service (Registry envConfig) (Namespace envConfig) ver tr = (r, tr1)"
    by (cases "deployService_p001 w service (Registry envConfig) (Namespace envConfig) ver tr")
  note f = deployService_p001_failures [OF d]
  show ?case
  proof (cases r)
    case None
    with f Cons.prems st have "failures (snd (errs, tr1)) = pre @ fst (errs, tr1)" by simp
    from Cons.IH [OF this] p st d None show ?thesis by simp
  next
    case (Some err)
    with f Cons.prems st have "failures (snd (errs @ [err], tr1)) = pre @ fst (errs @ [err], tr1)"
      by simp
    from Cons.IH [OF this] p st d Some show ?thesis by simp
  qed
qed

lemma applyUpdates_p001_result:
  assumes "deployAll_p001 w envConfig sel ([], tr @ [Log MConfirmed, Print MConfirmed]) = (errs, tr1)"
  shows "failures tr1 = failures tr @ errs"
    and "fst (applyUpdates_p001 w services envConfig cur sel tr)
           = (if errs = [] then None else Some (DeployErrors errs))"
proof -
  have "failures (snd ([] :: error list, tr @ [Log MConfirmed, Print MConfirmed]))
          = failures tr @ fst ([] :: error list, tr @ [Log MConfirmed, Print MConfirmed])"
    by (simp add: failures_append)
  from deployAll_p001_failures [OF this, of w envConfig sel] assms
  show "failures tr1 = failures tr @ errs" by simp
  show "fst (applyUpdates_p001 w services envConfig cur sel tr)
           = (if errs = [] then None else Some (DeployErrors errs))"
    using assms by (simp add: applyUpdates_p001_def split: prod.splits sum.splits)
qed

subsection \<open>The context switcher of \<open>main.go\<close>\<close>

lemma switchContext_active:
  assumes "w tr CurrentContext = (True, out)" and "TrimSpace out = c"
  shows "switchContext w c tr = (None, tr @ [Run CurrentContext, Print (MCurrentEnv c)])"
  using assms by (simp add: switchContext_def exec_def)

lemma switchContext_inactive:
  assumes "\<not> (fst (w tr CurrentContext) \<and> TrimSpace (snd (w tr CurrentContext)) = c)"
    and "tr2 = tr @ [Run CurrentContext, Print (MSwitching c)]"
    and "tr3 = tr2 @ [Run (UseContext c)]"
  shows "switchContext w c tr =
     (if \<not> fst (w tr2 (UseContext c)) then (Some (SwitchFailed (snd (w tr2 (UseContext c)))), tr3)
      else if \<not> fst (w tr3 GetNodes)
      then (Some (ClusterCheckFailed (snd (w tr3 GetNodes))), tr3 @ [Run GetNodes])
      else (None, tr3 @ [Run GetNodes]))"
  using assms by (auto simp: switchContext_def exec_def split: prod.splits)

lemma Deploy_switch_failed:
  assumes "Environments config env = Some envConfig"
    and "fst (switchContext w (Context envConfig) [Log (MStart env si vi)]) = Some err"
  shows "fst (Deploy w config services response env si vi) = Some err \<and>
         filter touchesDeployments (snd (Deploy w config services response env si vi)) = []"
proof -
  obtain tr1 ext where sw: "switchContext w (Context envConfig) [Log (MStart env si vi)] = (Some err, tr1)"
      "tr1 = [Log (MStart env si vi)] @ ext" "\<forall>e\<in>set ext. \<not> touchesDeployments e \<and> e \<noteq> Prompt"
    using assms(2) switchContext_cases [of w "Context envConfig" "[Log (MStart env si vi)]"]
    by (metis fst_conv)
  from sw(3) have "filter touchesDeployments ext = []" by (auto simp: filter_empty_conv)
  with assms(1) sw(1,2) show ?thesis by (simp add: Deploy_def)
qed

lemma Check_switch_failed:
  assumes "Environments config env = Some envConfig"
    and "fst (switchContext w (Context envConfig) []) = Some err"
  shows "fst (Check w config services env si vi) = Some err \<and>
         filter touchesDeployments (snd (Check w config services env si vi)) = []"
proof -
  obtain tr1 ext where sw: "switchContext w (Context envConfig) [] = (Some err, tr1)"
      "tr1 = [] @ ext" "\<forall>e\<in>set ext. \<not> touchesDeployments e \<and> e \<noteq> Prompt"
    using assms(2) switchContext_cases [of w "Context envConfig" "[]"]
    by (metis fst_conv)
  from sw(3) have "filter touchesDeployments ext = []" by (auto simp: filter_empty_conv)
  with assms(1) sw(1,2) show ?thesis by (simp add: Check_def)
qed

subsection \<open>A query of the deployments that fails\<close>

lemma deployIn_query_failed:
  assumes "w tr (GetDeployment (Namespace envConfig)) = (False, out)"
    and "sel = getSelectedServices services si vi" and "sel \<noteq> []"
    and "tr2 = tr @ [Run (GetDeployment (Namespace envConfig)),
                     Log (MWarnCurrent (GetDeploymentFailed out)),
                     Print (MWarnCurrent (GetDeploymentFailed out)),
                     Log (MSelected sel), Print (MPreview [] sel), Prompt]"
  shows "deployIn w services response envConfig si vi tr =
     (if ToLower response \<noteq> ''y'' then (None, tr2 @ [Log MCancelled, Print MCancelled])
      else applyUpdates w services envConfig [] sel tr2)"
  using assms by (simp add: deployIn_def getCurrentVersions_def exec_def confirmDeploy_def Let_def)

lemma deployIn_p001_query_failed:
  assumes "w tr (GetDeployment (Namespace envConfig)) = (False, out)"
    and "getSelectedServices_p001 services si vi
           (tr @ [Run (GetDeployment (Namespace envConfig)),
                  Log (MWarnCurrent (GetDeploymentFailed out)),
                  Print (MWarnCurrent (GetDeploymentFailed out))]) = (sel, tr1)"
    and "sel \<noteq> []"
    and "tr2 = tr1 @ [Log (MSelected sel), Print (MPreview [] sel), Prompt]"
  shows "deployIn_p001 w services response envConfig si vi tr =
     (if ToLower response \<noteq> ''y'' then (None, tr2 @ [Log MCancelled, Print MCancelled])
      else applyUpdates_p001 w services envConfig [] sel tr2)"
  using assms
  by (simp add: deployIn_p001_def getCurrentVersions_p001_def exec_def confirmDeploy_def Let_def)

lemma Check_query_failed:
  assumes "Environments config env = Some envConfig"
    and "switchContext w (Context envConfig) [] = (None, tr1)"
    and "w tr1 (GetDeployment (Namespace envConfig)) = (False, out)"
    and "sel = getSelectedServices services si vi" and "sel \<noteq> []"
  shows "Check w config services env si vi =
     (None, tr1 @ [Run (GetDeployment (Namespace envConfig)),
                   Print (MWarnCurrent (GetDeploymentFailed out)), Print (MPreview [] sel)])"
  using assms by (simp add: Check_def getCurrentVersions_def exec_def Let_def)

lemma Check_p001_query_failed:
  assumes "Environments config env = Some envConfig"
    and "switchContext_p001 w (Context envConfig) [] = (None, tr1)"
    and "w tr1 (GetDeployment (Namespace envConfig)) = (False, out)"
  shows "Check_p001 w config services env si vi =
     (Some (GetDeploymentFailed out), tr1 @ [Run (GetDeployment (Namespace envConfig))])"
  using assms by (simp add: Check_p001_def getCurrentVersions_p001_def exec_def)



section \<open>The example runs\<close>

lemmas example_defs =
  exampleConfig_def exampleServices_def docsOnly_def sameName_def overlapping_def
  deploymentRows_def
  okWorld_def failedUpdateWorld_def failedQueryWorld_def unreachableWorld_def portWorld_def

lemmas run_defs =
  Deploy_def Check_def main_def deployIn_def applyUpdates_def
  Deploy_p001_def Check_p001_def main_p001_def deployIn_p001_def applyUpdates_p001_def
  switchContext_def switchContext_p001_def exec_def
  getCurrentVersions_def getCurrentVersions_p001_def recordLine_def getEnabledServices_def
  getSelectedServices_def getSelectedServices_p001_def selectOne_def selectOne_p001_def
  enabledSingle_def enabledGroup_def selectVersion_def
  confirmDeploy_def ToLower_def lowerByte_def
  deployService_def deployService_p001_def image_of_def
  TrimSpace_def spaceRunes_def Let_def


lemma run_cancelled:
  "Deploy okWorld exampleConfig docsOnly ''no'' ''pre'' [] [] =
     (None,
      [Log (MStart ''pre'' [] []), Run CurrentContext, Print (MCurrentEnv ''pre-cluster''),
       Log (MSwitched ''pre-cluster''), Run (GetDeployment ''default''),
       Log (MSelected [(''docs-fe'', ''v3.48.1'')]),
       Print (MPreview [(''docs-fe'', ''v3.48.0'')] [(''docs-fe'', ''v3.48.1'')]),
       Prompt, Log MCancelled, Print MCancelled])"
  by (simp add: run_defs example_defs)

lemma run_cancelled_p001:
  "Deploy_p001 okWorld exampleConfig docsOnly ''no'' ''pre'' [] [] =
     (None,
      [Log (MStart ''pre'' [] []), Run (UseContext ''pre-cluster''),
       Log (MSwitched ''pre-cluster''), Run (GetDeployment ''default''),
       Log (MSelected [(''docs-fe'', ''v3.48.1'')]),
       Print (MPreview [(''docs-fe'', ''v3.48.0'')] [(''docs-fe'', ''v3.48.1'')]),
       Prompt, Log MCancelled, Print MCancelled])"
  by (simp add: run_defs example_defs)


lemma example_lines:
  "Split (TrimSpace deploymentRows) (CHR 0x0A)
     = [''docs-fe'' @ CHR 0x09 # ''registry.example/docs-fe:v3.48.0'',
        ''other'' @ CHR 0x09 # ''registry.example/other:v7'']"
  by (simp add: TrimSpace_def spaceRunes_def deploymentRows_def)


lemma run_failed_update_p001:
  "Deploy_p001 failedUpdateWorld exampleConfig docsOnly ''y'' ''pre'' [] [] =
     (Some (DeployErrors [PublishFailed ''docs-fe'' ''not found'']),
      [Log (MStart ''pre'' [] []), Run (UseContext ''pre-cluster''),
       Log (MSwitched ''pre-cluster''), Run (GetDeployment ''default''),
       Log (MSelected [(''docs-fe'', ''v3.48.1'')]),
       Print (MPreview [(''docs-fe'', ''v3.48.0'')] [(''docs-fe'', ''v3.48.1'')]),
       Prompt, Log MConfirmed, Print MConfirmed,
       Log (MPublishing ''docs-fe'' ''registry.example/docs-fe:v3.48.1''),
       Print (MPublishing ''docs-fe'' ''registry.example/docs-fe:v3.48.1''),
       Run (SetImage ''docs-fe'' ''registry.example/docs-fe:v3.48.1'' ''default''),
       Log (MPublishFailed ''docs-fe'' ''not found'')])"
  by (simp add: run_defs example_defs)

lemma run_failed_query:
  "Check failedQueryWorld exampleConfig docsOnly ''pre'' [] [] =
     (None,
      [Run CurrentContext, Print (MCurrentEnv ''pre-cluster''), Run (GetDeployment ''default''),
       Print (MWarnCurrent (GetDeploymentFailed ''forbidden'')),
       Print (MPreview [] [(''docs-fe'', ''v3.48.1'')])])"
  by (simp add: run_defs example_defs)

lemma run_unreachable:
  "Deploy unreachableWorld exampleConfig docsOnly ''y'' ''pre'' [] [] =
     (Some (ClusterCheckFailed ''timeout''),
      [Log (MStart ''pre'' [] []), Run CurrentContext, Print (MSwitching ''pre-cluster''),
       Run (UseContext ''pre-cluster''), Run GetNodes,
       Log (MSwitchFailed (ClusterCheckFailed ''timeout''))])"
  by (simp add: run_defs example_defs)

text \<open>
  The order of the names in a scope filter matters when two enabled entries give a
  version to the same service: the entry named last wins, where the empty filter lets
  the group win.
\<close>

lemma scope_order_matters:
  "getSelectedServices overlapping [] [] = [(''web'', ''v2'')] \<and>
   getSelectedServices overlapping ''web,stack'' [] = [(''web'', ''v2'')] \<and>
   getSelectedServices overlapping ''stack,web'' [] = [(''web'', ''v1'')] \<and>
   fst (getSelectedServices_p001 overlapping [] [] []) = [(''web'', ''v2'')] \<and>
   fst (getSelectedServices_p001 overlapping ''web,stack'' [] []) = [(''web'', ''v2'')] \<and>
   fst (getSelectedServices_p001 overlapping ''stack,web'' [] []) = [(''web'', ''v1'')]"
  by (simp add: run_defs example_defs)


section \<open>The claims\<close>

subsection \<open>C1: the version given on the command line\<close>

text \<open>
  The claim says that a non-empty \<open>versionOverride\<close> is the version of every selected
  service, for the empty scope filter too. \<open>part_001\<close> does that
  (\<open>override_wins_part001\<close>), and so does \<open>main.go\<close> for a scope filter that is not empty
  (\<open>override_wins_for_named\<close>). The branch of \<open>main.go\<close> for the empty scope filter writes
  \<open>info.Version\<close> and \<open>group.Version\<close> without calling \<open>selectVersion\<close>, although the help
  text of the same file documents \<open>-version\<close> without such an exception.
\<close>

text \<open>
  C1, at the input where \<open>main.go\<close> departs from it: with the single enabled service
  \<open>docs-fe\<close> at \<open>v3.48.1\<close>, no scope filter and the version \<open>v3.48.2\<close> on the command
  line, \<open>getSelectedServices\<close> of \<open>main.go\<close> resolves \<open>docs-fe\<close> to \<open>v3.48.1\<close>.
\<close>

theorem C1_override_ignored_for_empty_scope:
  "getSelectedServices docsOnly [] ''v3.48.2'' = [(''docs-fe'', ''v3.48.1'')]"
  by (simp add: getSelectedServices_def docsOnly_def)


subsection \<open>C2: an update that fails\<close>

text \<open>
  The claim says that one update is launched for every entry of the target, that all of
  them are awaited, that none hinders another, and that \<open>Deploy\<close> fails, naming every
  failed service, when one of them fails. Both programs launch and await one update for
  every entry whatever the outcomes are (\<open>deployAll_updates\<close>, \<open>deployAll_p001_updates\<close>),
  and \<open>part_001\<close> returns the failures it has logged as one error
  (\<open>applyUpdates_p001_result\<close>, \<open>run_failed_update_p001\<close>). In \<open>main.go\<close>
  \<open>deployService\<close> returns a line of text for a failure too, and \<open>Deploy\<close> prints the lines
  and returns \<open>nil\<close>: from the confirmation on it cannot fail (\<open>applyUpdates_returns_nil\<close>).
\<close>

text \<open>
  C2, at the input where \<open>main.go\<close> departs from it: the only update fails, the failure is
  logged and printed, and \<open>Deploy\<close> returns \<open>nil\<close>, so the process exits with code 0.
\<close>

theorem C2_failed_update_exits_0:
  "Deploy failedUpdateWorld exampleConfig docsOnly ''y'' ''pre'' [] [] =
     (None,
      [Log (MStart ''pre'' [] []), Run CurrentContext, Print (MCurrentEnv ''pre-cluster''),
       Log (MSwitched ''pre-cluster''), Run (GetDeployment ''default''),
       Log (MSelected [(''docs-fe'', ''v3.48.1'')]),
       Print (MPreview [(''docs-fe'', ''v3.48.0'')] [(''docs-fe'', ''v3.48.1'')]),
       Prompt, Log MConfirmed, Print MConfirmed,
       Log (MPublishing ''docs-fe'' ''registry.example/docs-fe:v3.48.1''),
       Print (MPublishing ''docs-fe'' ''registry.example/docs-fe:v3.48.1''),
       Run (SetImage ''docs-fe'' ''registry.example/docs-fe:v3.48.1'' ''default''),
       Log (MResult (Failed ''docs-fe'' ''not found'')),
       Log (MDeployResult (Failed ''docs-fe'' ''not found'')),
       Print (MResult (Failed ''docs-fe'' ''not found'')),
       Run (GetDeployment ''default''),
       Print (MComparison [(''docs-fe'', ''v3.48.0'')] [(''docs-fe'', ''v3.48.0'')]),
       Log MDone]) \<and>
   fst (main failedUpdateWorld exampleConfig docsOnly ''y'' False ''pre'' [] []) = 0"
  by (simp add: run_defs example_defs)


subsection \<open>C3: what is not enabled is never selected and never observed\<close>

text \<open>
  C3: a name that no enabled single service has and that no enabled group lists is a
  key neither of the resolved target of \<open>getSelectedServices\<close> nor of the observed state
  of \<open>getCurrentVersions\<close>, in both programs, whatever the scope filter, the version and
  the answer of the cluster are. A disabled single service that is in no enabled group is
  such a name, and so is a member of a disabled group that nothing else enables.
\<close>

theorem C3_disabled_never_appears:
  assumes "\<forall>info. (n, info) \<in> set (SingleServices s) \<longrightarrow> \<not> Enabled info"
    and "\<forall>g grp. (g, grp) \<in> set (ServiceGroups s) \<and> group_Enabled grp
                  \<longrightarrow> n \<notin> set (group_Services grp)"
  shows "n \<notin> fst ` set (getSelectedServices s servicesInput versionInput) \<and>
         n \<notin> fst ` set (fst (getSelectedServices_p001 s servicesInput versionInput tr)) \<and>
         n \<notin> fst ` set (snd (fst (getCurrentVersions w s namespace [] tr'))) \<and>
         (\<forall>versions. fst (getCurrentVersions_p001 w s namespace tr') = Inr versions
                      \<longrightarrow> n \<notin> fst ` set versions)"
proof -
  from assms have n: "n \<notin> getEnabledServices s"
    by (auto simp: getEnabledServices_iff)
  have 1: "n \<notin> fst ` set (getSelectedServices s servicesInput versionInput)"
    using n keys_getSelectedServices [of s servicesInput versionInput] by blast
  have 2: "n \<notin> fst ` set (fst (getSelectedServices_p001 s servicesInput versionInput tr))"
    using n keys_getSelectedServices_p001 [of s servicesInput versionInput tr] by blast
  have k: "n \<notin> fst ` set (recordLines (getEnabledServices s) lines [])" for lines
    using n keys_recordLines [of "getEnabledServices s" lines "[]"] by auto
  have 3: "n \<notin> fst ` set (snd (fst (getCurrentVersions w s namespace [] tr')))"
    using k by (simp add: getCurrentVersions_def exec_def Let_def split: prod.splits)
  have 4: "\<forall>versions. fst (getCurrentVersions_p001 w s namespace tr') = Inr versions
                      \<longrightarrow> n \<notin> fst ` set versions"
    using k by (auto simp: getCurrentVersions_p001_def exec_def Let_def split: prod.splits if_splits)
  from 1 2 3 4 show ?thesis by blast
qed

theorem C3_disabled_never_appears_witness:
  "''old-fe'' \<notin> fst ` set (getSelectedServices exampleServices ''old-fe,nft'' []) \<and>
   ''old-fe'' \<notin> fst ` set (fst (getSelectedServices_p001 exampleServices ''old-fe,nft'' [] [])) \<and>
   ''old-fe'' \<notin> fst ` set (snd (fst (getCurrentVersions okWorld exampleServices ''default'' [] []))) \<and>
   fst (getCurrentVersions_p001 okWorld exampleServices ''default'' [])
     = Inr [(''docs-fe'', ''v3.48.0'')]"
proof -
  have h1: "\<forall>info. (''old-fe'', info) \<in> set (SingleServices exampleServices) \<longrightarrow> \<not> Enabled info"
    by (auto simp: exampleServices_def)
  have h2: "\<forall>g grp. (g, grp) \<in> set (ServiceGroups exampleServices) \<and> group_Enabled grp
                  \<longrightarrow> ''old-fe'' \<notin> set (group_Services grp)"
    by (auto simp: exampleServices_def)
  have t: "TrimSpace deploymentRows
             = ''docs-fe'' @ [CHR 0x09] @ ''registry.example/docs-fe:v3.48.0'' @ [CHR 0x0A] @
               ''other'' @ [CHR 0x09] @ ''registry.example/other:v7''"
    by (simp add: TrimSpace_def spaceRunes_def deploymentRows_def)
  have e: "''docs-fe'' \<in> getEnabledServices exampleServices"
          "''other'' \<notin> getEnabledServices exampleServices"
    by (simp_all add: getEnabledServices_def exampleServices_def)
  have g: "fst (getCurrentVersions_p001 okWorld exampleServices ''default'' [])
             = Inr [(''docs-fe'', ''v3.48.0'')]"
    by (simp add: getCurrentVersions_p001_def exec_def okWorld_def t recordLine_def e)
  from g C3_disabled_never_appears [OF h1 h2, of "''old-fe,nft''" "[]" "[]" okWorld "''default''" "[]"]
  show ?thesis by blast
qed


subsection \<open>C4: the empty scope filter and the filter that names everything\<close>

text \<open>
  The claim says that the empty scope filter gives the same target as a filter that names
  every enabled single service and every enabled group. In \<open>part_001\<close> a name that is an
  enabled single service is not looked up as a group (see C10), so when a group shares
  its name with a single service no filter can select the members of the group: for the
  configuration \<open>sameName\<close> the filter \<open>api,api\<close> names every enabled entry and selects
  \<open>api\<close> only, where the empty filter selects \<open>api\<close> and \<open>api-worker\<close>. (In both
  programs the order of the names matters as well, see \<open>scope_order_matters\<close>.)
\<close>

theorem C4_counterexample:
  "explicitScope sameName = ''api,api'' \<and>
   fst (getSelectedServices_p001 sameName [] [] []) = [(''api'', ''v1''), (''api-worker'', ''v2'')] \<and>
   fst (getSelectedServices_p001 sameName ''api,api'' [] []) = [(''api'', ''v1'')] \<and>
   map_of (fst (getSelectedServices_p001 sameName ''api,api'' [] []))
     \<noteq> map_of (fst (getSelectedServices_p001 sameName [] [] []))"
proof -
  have t: "TrimSpace ''api'' = ''api''" by (simp add: TrimSpace_def spaceRunes_def)
  have 1: "explicitScope sameName = ''api,api''"
    by (simp add: explicitScope_def enabledSingleNames_def enabledGroupNames_def sameName_def)
  have 2: "fst (getSelectedServices_p001 sameName [] [] []) = [(''api'', ''v1''), (''api-worker'', ''v2'')]"
    by (simp add: getSelectedServices_p001_def sameName_def selectVersion_def)
  have 3: "fst (getSelectedServices_p001 sameName ''api,api'' [] []) = [(''api'', ''v1'')]"
    by (simp add: getSelectedServices_p001_def selectOne_p001_def enabledSingle_def t
                  sameName_def selectVersion_def)
  have "map_of (fst (getSelectedServices_p001 sameName ''api,api'' [] [])) ''api-worker''
          \<noteq> map_of (fst (getSelectedServices_p001 sameName [] [] [])) ''api-worker''"
    unfolding 2 3 by simp
  then have 4: "map_of (fst (getSelectedServices_p001 sameName ''api,api'' [] []))
     \<noteq> map_of (fst (getSelectedServices_p001 sameName [] [] []))" by metis
  from 1 2 3 4 show ?thesis by blast
qed

text \<open>
  C4 as amended: when no name is both an enabled single service and an enabled group,
  and no enabled name contains a comma or starts or ends with white space, the filter
  that names the enabled single services and then the enabled groups, in the order in
  which the configuration is ranged over, gives the same target as the empty filter: in
  \<open>part_001\<close> for every version given on the command line, in \<open>main.go\<close> when none is
  given. (The keys of a Go map are distinct, which the first two assumptions say.)
\<close>

theorem C4_explicit_scope_equivalence:
  assumes ds: "distinct (map fst (SingleServices s))"
    and dg: "distinct (map fst (ServiceGroups s))"
    and disj: "set (enabledSingleNames s) \<inter> set (enabledGroupNames s) = {}"
    and names: "\<forall>n \<in> set (enabledSingleNames s @ enabledGroupNames s).
                  CHR '','' \<notin> set n \<and> TrimSpace n = n"
  shows "map_of (fst (getSelectedServices_p001 s (explicitScope s) versionInput tr))
           = map_of (fst (getSelectedServices_p001 s [] versionInput tr))
       \<and> map_of (getSelectedServices s (explicitScope s) [])
           = map_of (getSelectedServices s [] [])"
proof (cases "explicitScope s = []")
  case True
  then show ?thesis by simp
next
  case False
  let ?names = "enabledSingleNames s @ enabledGroupNames s"
  from False have ne: "?names \<noteq> []" by (auto simp: explicitScope_def)
  from names have "\<forall>n \<in> set ?names. CHR '','' \<notin> set n" by blast
  with ne have split: "Split (explicitScope s) CHR '','' = ?names"
    unfolding explicitScope_def by (rule Split_Join)
  have trim_s: "TrimSpace n = n" if "(n, info) \<in> set (SingleServices s)" "Enabled info" for n info
    using names in_enabledSingleNames [OF that] by simp
  have trim_g: "TrimSpace n = n" if "(n, grp) \<in> set (ServiceGroups s)" "group_Enabled grp" for n grp
    using names in_enabledGroupNames [OF that] by simp
  have s2: "\<forall>(n, info) \<in> set (SingleServices s).
              Enabled info \<longrightarrow> enabledSingle s n = Some info \<and> TrimSpace n = n"
    using single_entry [OF ds disj] trim_s by blast
  have g2: "\<forall>(n, grp) \<in> set (ServiceGroups s). group_Enabled grp \<longrightarrow>
              enabledSingle s n = None \<and> enabledGroup s n = Some grp \<and> TrimSpace n = n"
    using group_entry [OF dg disj] trim_g by blast
  have s1: "\<forall>(n, info) \<in> set (SingleServices s).
              Enabled info \<longrightarrow> enabledSingle s n = Some info \<and> enabledGroup s n = None"
    using single_entry [OF ds disj] by blast
  have g1: "\<forall>(n, grp) \<in> set (ServiceGroups s). group_Enabled grp \<longrightarrow>
              enabledSingle s n = None \<and> enabledGroup s n = Some grp"
    using group_entry [OF dg disj] by blast
  have p001: "getSelectedServices_p001 s (explicitScope s) versionInput tr
                = getSelectedServices_p001 s [] versionInput tr"
    using listed_singles_p001 [OF s2, of versionInput "enabledGroupNames s" "[]" tr]
          listed_groups_p001 [OF g2, of versionInput "[]" _ tr] False
    by (simp add: getSelectedServices_p001_def split enabledSingleNames_def [symmetric]
                  enabledGroupNames_def [symmetric])
  have main: "getSelectedServices s (explicitScope s) [] = getSelectedServices s [] []"
    using listed_singles [OF s1, of "enabledGroupNames s" "[]"]
          listed_groups [OF g1, of "[]"] False
    by (simp add: getSelectedServices_def split enabledSingleNames_def [symmetric]
                  enabledGroupNames_def [symmetric])
  from p001 main show ?thesis by simp
qed

theorem C4_explicit_scope_equivalence_witness:
  "distinct (map fst (SingleServices exampleServices)) \<and>
   distinct (map fst (ServiceGroups exampleServices)) \<and>
   set (enabledSingleNames exampleServices) \<inter> set (enabledGroupNames exampleServices) = {} \<and>
   explicitScope exampleServices = ''docs-fe,nft'' \<and>
   map_of (fst (getSelectedServices_p001 exampleServices ''docs-fe,nft'' ''v9'' []))
     = map_of (fst (getSelectedServices_p001 exampleServices [] ''v9'' [])) \<and>
   map_of (getSelectedServices exampleServices ''docs-fe,nft'' [])
     = map_of (getSelectedServices exampleServices [] [])"
proof -
  have h1: "distinct (map fst (SingleServices exampleServices))"
    by (simp add: exampleServices_def)
  have h2: "distinct (map fst (ServiceGroups exampleServices))"
    by (simp add: exampleServices_def)
  have h3: "set (enabledSingleNames exampleServices) \<inter> set (enabledGroupNames exampleServices) = {}"
    by (simp add: enabledSingleNames_def enabledGroupNames_def exampleServices_def)
  have h4: "\<forall>n \<in> set (enabledSingleNames exampleServices @ enabledGroupNames exampleServices).
      CHR '','' \<notin> set n \<and> TrimSpace n = n"
    by (simp add: enabledSingleNames_def enabledGroupNames_def exampleServices_def
                  TrimSpace_def spaceRunes_def)
  have e: "explicitScope exampleServices = ''docs-fe,nft''"
    by (simp add: explicitScope_def enabledSingleNames_def enabledGroupNames_def exampleServices_def)
  from h1 h2 h3 h4 e C4_explicit_scope_equivalence [OF h1 h2 h3 h4, of "''v9''" "[]"]
  show ?thesis by simp
qed


subsection \<open>C5: the context switcher\<close>

text \<open>
  The claim says that the switcher does nothing when the target is the active context,
  and otherwise switches and then lists the nodes, failing the command when that fails.
  \<open>switchContext\<close> of \<open>main.go\<close> does so (\<open>switchContext_active\<close>, \<open>switchContext_inactive\<close>),
  and a failure leaves \<open>Deploy\<close> and \<open>Check\<close> before they read or write a deployment
  (\<open>Deploy_switch_failed\<close>, \<open>Check_switch_failed\<close>, \<open>run_unreachable\<close>).
  \<open>switchContext\<close> of \<open>part_001\<close> runs \<open>kubectl config use-context\<close> and nothing else.
\<close>

text \<open>
  C5, at the inputs where \<open>part_001\<close> departs from it: with \<open>pre-cluster\<close> active and
  \<open>pre-cluster\<close> the target, the switch command is run; and for a cluster that cannot be
  reached, no probe is made, the switcher succeeds, and \<open>Deploy\<close> goes on to run the query
  and, once the user has confirmed, the update against that cluster.
\<close>

theorem C5_switch_without_check_or_probe:
  "okWorld [] CurrentContext = (True, ''pre-cluster'' @ [CHR 0x0A]) \<and>
   TrimSpace (''pre-cluster'' @ [CHR 0x0A]) = ''pre-cluster'' \<and>
   switchContext_p001 okWorld ''pre-cluster'' [] = (None, [Run (UseContext ''pre-cluster'')]) \<and>
   unreachableWorld [Run (UseContext ''pre-cluster'')] GetNodes = (False, ''timeout'') \<and>
   switchContext_p001 unreachableWorld ''pre-cluster'' [] = (None, [Run (UseContext ''pre-cluster'')]) \<and>
   Deploy_p001 unreachableWorld exampleConfig docsOnly ''y'' ''pre'' [] [] =
     (Some (DeployErrors [PublishFailed ''docs-fe'' ''timeout'']),
      [Log (MStart ''pre'' [] []), Run (UseContext ''pre-cluster''),
       Log (MSwitched ''pre-cluster''), Run (GetDeployment ''default''),
       Log (MWarnCurrent (GetDeploymentFailed ''timeout'')),
       Print (MWarnCurrent (GetDeploymentFailed ''timeout'')),
       Log (MSelected [(''docs-fe'', ''v3.48.1'')]),
       Print (MPreview [] [(''docs-fe'', ''v3.48.1'')]),
       Prompt, Log MConfirmed, Print MConfirmed,
       Log (MPublishing ''docs-fe'' ''registry.example/docs-fe:v3.48.1''),
       Print (MPublishing ''docs-fe'' ''registry.example/docs-fe:v3.48.1''),
       Run (SetImage ''docs-fe'' ''registry.example/docs-fe:v3.48.1'' ''default''),
       Log (MPublishFailed ''docs-fe'' ''timeout'')])"
  by (simp add: run_defs example_defs)


subsection \<open>C6: the confirmation\<close>

text \<open>
  C6: in both programs, when the answer to the prompt is not \<open>y\<close> or \<open>Y\<close>
  (\<open>ToLower_y\<close>; the empty answer is one of these), a run of \<open>Deploy\<close> contains no update
  command; if the run got as far as the prompt, the cancellation is logged, \<open>Deploy\<close>
  returns \<open>nil\<close> and the process exits with code 0. Whatever the answer is, no update
  command comes before the prompt in a run, so every update command follows an answer,
  and by the first part an affirmative one.
\<close>

theorem C6_cancellation:
  "(ToLower response \<noteq> ''y'' \<longrightarrow>
      filter isUpdate (snd (Deploy w config services response env si vi)) = [] \<and>
      filter isUpdate (snd (Deploy_p001 w config services response env si vi)) = [] \<and>
      (Prompt \<in> set (snd (Deploy w config services response env si vi)) \<longrightarrow>
         fst (Deploy w config services response env si vi) = None \<and>
         Log MCancelled \<in> set (snd (Deploy w config services response env si vi)) \<and>
         (env \<noteq> [] \<longrightarrow> fst (main w config services response False env si vi) = 0)) \<and>
      (Prompt \<in> set (snd (Deploy_p001 w config services response env si vi)) \<longrightarrow>
         fst (Deploy_p001 w config services response env si vi) = None \<and>
         Log MCancelled \<in> set (snd (Deploy_p001 w config services response env si vi)) \<and>
         (env \<noteq> [] \<longrightarrow> fst (main_p001 w config services response False env si vi) = 0))) \<and>
   filter isUpdate (takeWhile (\<lambda>e. e \<noteq> Prompt)
      (snd (Deploy w config services response env si vi))) = [] \<and>
   filter isUpdate (takeWhile (\<lambda>e. e \<noteq> Prompt)
      (snd (Deploy_p001 w config services response env si vi))) = []"
  using Deploy_summary [of w config services response env si vi]
        Deploy_p001_summary [of w config services response env si vi]
        main_Deploy [of env w config services response si vi]
        main_p001_Deploy [of env w config services response si vi]
  by simp

theorem C6_cancellation_witness:
  "ToLower ''no'' \<noteq> ''y'' \<and>
   Prompt \<in> set (snd (Deploy okWorld exampleConfig docsOnly ''no'' ''pre'' [] [])) \<and>
   Prompt \<in> set (snd (Deploy_p001 okWorld exampleConfig docsOnly ''no'' ''pre'' [] [])) \<and>
   filter isUpdate (snd (Deploy okWorld exampleConfig docsOnly ''no'' ''pre'' [] [])) = [] \<and>
   filter isUpdate (snd (Deploy_p001 okWorld exampleConfig docsOnly ''no'' ''pre'' [] [])) = [] \<and>
   fst (Deploy okWorld exampleConfig docsOnly ''no'' ''pre'' [] []) = None \<and>
   Log MCancelled \<in> set (snd (Deploy okWorld exampleConfig docsOnly ''no'' ''pre'' [] [])) \<and>
   fst (main okWorld exampleConfig docsOnly ''no'' False ''pre'' [] []) = 0 \<and>
   fst (Deploy_p001 okWorld exampleConfig docsOnly ''no'' ''pre'' [] []) = None \<and>
   Log MCancelled \<in> set (snd (Deploy_p001 okWorld exampleConfig docsOnly ''no'' ''pre'' [] [])) \<and>
   fst (main_p001 okWorld exampleConfig docsOnly ''no'' False ''pre'' [] []) = 0"
proof -
  have h: "ToLower ''no'' \<noteq> ''y''" by (simp add: ToLower_def)
  have p1: "Prompt \<in> set (snd (Deploy okWorld exampleConfig docsOnly ''no'' ''pre'' [] []))"
    by (simp add: run_cancelled)
  have p2: "Prompt \<in> set (snd (Deploy_p001 okWorld exampleConfig docsOnly ''no'' ''pre'' [] []))"
    by (simp add: run_cancelled_p001)
  have e: "''pre'' \<noteq> []" by simp
  from h p1 p2 e
    C6_cancellation [of "''no''" okWorld exampleConfig docsOnly "''pre''" "[]" "[]"]
  show ?thesis by blast
qed


subsection \<open>C7: nothing selected\<close>

text \<open>
  C7: in both programs, for \<open>Deploy\<close> and for \<open>Check\<close>, when the resolver selects
  nothing the operation returns an error, the process prints the error as its last
  action and exits with code 1, and the run contains no update command. The error is the
  one for an empty selection whenever the run reaches the resolver
  (\<open>Deploy_no_services\<close>, \<open>Check_no_services\<close>, \<open>Deploy_p001_no_services\<close>,
  \<open>Check_p001_no_services\<close>); before that the operation has only switched the context and
  queried the deployments.
\<close>

theorem C7_nothing_selected:
  assumes "env \<noteq> []"
  shows
   "(getSelectedServices services si vi = [] \<longrightarrow>
       fst (main w config services response isCheck env si vi) = 1 \<and>
       filter isUpdate (snd (main w config services response isCheck env si vi)) = [] \<and>
       (\<exists>err. last (snd (main w config services response isCheck env si vi))
                = Print (MFailure err))) \<and>
    (fst (getSelectedServices_p001 services si vi []) = [] \<longrightarrow>
       fst (main_p001 w config services response isCheck env si vi) = 1 \<and>
       filter isUpdate (snd (main_p001 w config services response isCheck env si vi)) = [] \<and>
       (\<exists>err. last (snd (main_p001 w config services response isCheck env si vi))
                = Print (MFailure err)))"
proof (intro conjI impI)
  assume s: "getSelectedServices services si vi = []"
  have d: "fst (Deploy w config services response env si vi) \<noteq> None"
          "filter isUpdate (snd (Deploy w config services response env si vi)) = []"
    using Deploy_summary [of w config services response env si vi] s by simp_all
  have c: "fst (Check w config services env si vi) \<noteq> None"
          "filter isUpdate (snd (Check w config services env si vi)) = []"
    using Check_summary [of w config services env si vi] s by simp_all
  note m = main_Deploy [OF assms, of w config services response si vi]
           main_Check [OF assms, of w config services response si vi]
  show "fst (main w config services response isCheck env si vi) = 1"
    using m d c by (cases isCheck) simp_all
  show "filter isUpdate (snd (main w config services response isCheck env si vi)) = []"
    using m d c by (cases isCheck) (auto split: option.splits)
  show "\<exists>err. last (snd (main w config services response isCheck env si vi)) = Print (MFailure err)"
    using m exit_failure [OF d(1)] exit_failure [OF c(1)] by (cases isCheck) simp_all
next
  assume s: "fst (getSelectedServices_p001 services si vi []) = []"
  have d: "fst (Deploy_p001 w config services response env si vi) \<noteq> None"
          "filter isUpdate (snd (Deploy_p001 w config services response env si vi)) = []"
    using Deploy_p001_summary [of w config services response env si vi] s by simp_all
  have c: "fst (Check_p001 w config services env si vi) \<noteq> None"
          "filter isUpdate (snd (Check_p001 w config services env si vi)) = []"
    using Check_p001_summary [of w config services env si vi] s by simp_all
  note m = main_p001_Deploy [OF assms, of w config services response si vi]
           main_p001_Check [OF assms, of w config services response si vi]
  show "fst (main_p001 w config services response isCheck env si vi) = 1"
    using m d c by (cases isCheck) simp_all
  show "filter isUpdate (snd (main_p001 w config services response isCheck env si vi)) = []"
    using m d c by (cases isCheck) (auto split: option.splits)
  show "\<exists>err. last (snd (main_p001 w config services response isCheck env si vi)) = Print (MFailure err)"
    using m exit_failure [OF d(1)] exit_failure [OF c(1)] by (cases isCheck) simp_all
qed

theorem C7_nothing_selected_witness:
  "''pre'' \<noteq> [] \<and>
   getSelectedServices docsOnly ''old-fe'' [] = [] \<and>
   fst (getSelectedServices_p001 docsOnly ''old-fe'' [] []) = [] \<and>
   fst (main okWorld exampleConfig docsOnly ''y'' False ''pre'' ''old-fe'' []) = 1 \<and>
   filter isUpdate (snd (main okWorld exampleConfig docsOnly ''y'' False ''pre'' ''old-fe'' [])) = [] \<and>
   last (snd (main okWorld exampleConfig docsOnly ''y'' False ''pre'' ''old-fe'' []))
     = Print (MFailure NoServicesToDeploy) \<and>
   fst (main_p001 okWorld exampleConfig docsOnly ''y'' False ''pre'' ''old-fe'' []) = 1 \<and>
   filter isUpdate (snd (main_p001 okWorld exampleConfig docsOnly ''y'' False ''pre'' ''old-fe'' [])) = [] \<and>
   last (snd (main_p001 okWorld exampleConfig docsOnly ''y'' False ''pre'' ''old-fe'' []))
     = Print (MFailure NoServicesToDeploy)"
proof -
  have e: "''pre'' \<noteq> []" by simp
  have s1: "getSelectedServices docsOnly ''old-fe'' [] = []"
    by (simp add: run_defs example_defs)
  have s2: "fst (getSelectedServices_p001 docsOnly ''old-fe'' [] []) = []"
    by (simp add: run_defs example_defs)
  have l1: "last (snd (main okWorld exampleConfig docsOnly ''y'' False ''pre'' ''old-fe'' []))
     = Print (MFailure NoServicesToDeploy)"
    by (simp add: run_defs example_defs)
  have l2: "last (snd (main_p001 okWorld exampleConfig docsOnly ''y'' False ''pre'' ''old-fe'' []))
     = Print (MFailure NoServicesToDeploy)"
    by (simp add: run_defs example_defs)
  from e s1 s2 l1 l2
    C7_nothing_selected [OF e, of docsOnly "''old-fe''" "[]" okWorld exampleConfig "''y''" False]
  show ?thesis by blast
qed


subsection \<open>C8: a query of the deployments that fails\<close>

text \<open>
  The claim says that a failure of \<open>getCurrentVersions\<close> is a warning, after which the
  command goes on with an empty snapshot, in \<open>Deploy\<close> and in \<open>Check\<close> alike. That is so
  in \<open>Deploy\<close> and \<open>Check\<close> of \<open>main.go\<close> and in \<open>Deploy\<close> of \<open>part_001\<close>
  (\<open>deployIn_query_failed\<close>, \<open>Check_query_failed\<close>, \<open>deployIn_p001_query_failed\<close>,
  \<open>run_failed_query\<close>). \<open>Check\<close> of \<open>part_001\<close> returns the error instead
  (\<open>Check_p001_query_failed\<close>).
\<close>

text \<open>
  C8, at the input where \<open>part_001\<close> departs from it: the query fails, one service is
  selected, and \<open>Check\<close> of \<open>part_001\<close> returns the error of the query without a preview;
  the process exits with code 1.
\<close>

theorem C8_check_aborts_on_failed_query:
  "failedQueryWorld [Run (UseContext ''pre-cluster'')] (GetDeployment ''default'')
     = (False, ''forbidden'') \<and>
   getSelectedServices_p001 docsOnly [] [] [] = ([(''docs-fe'', ''v3.48.1'')], []) \<and>
   Check_p001 failedQueryWorld exampleConfig docsOnly ''pre'' [] [] =
     (Some (GetDeploymentFailed ''forbidden''),
      [Run (UseContext ''pre-cluster''), Run (GetDeployment ''default'')]) \<and>
   main_p001 failedQueryWorld exampleConfig docsOnly [] True ''pre'' [] [] =
     (1, [Run (UseContext ''pre-cluster''), Run (GetDeployment ''default''),
          Print (MFailure (GetDeploymentFailed ''forbidden''))])"
  by (simp add: run_defs example_defs)


subsection \<open>C9: the observed versions\<close>

text \<open>
  The claim says that the version recorded for a row of the query output is what follows
  the last \<open>:\<close> of the image reference. Both programs split the reference at every \<open>:\<close>
  and record a version only when that gives two pieces. The reference of an image in a
  registry with a port has two colons, and nothing is recorded for it.
\<close>

theorem C9_counterexample:
  "portWorld [] (GetDeployment ''default'')
     = (True, ''docs-fe'' @ [CHR 0x09] @ ''localhost:5000/docs-fe:v3.48.0'' @ [CHR 0x0A]) \<and>
   ''docs-fe'' \<in> getEnabledServices docsOnly \<and>
   afterLast CHR '':'' ''localhost:5000/docs-fe:v3.48.0'' = ''v3.48.0'' \<and>
   getCurrentVersions portWorld docsOnly ''default'' [] []
     = ((None, []), [Run (GetDeployment ''default'')]) \<and>
   getCurrentVersions_p001 portWorld docsOnly ''default'' []
     = (Inr [], [Run (GetDeployment ''default'')])"
  by (simp add: portWorld_def getEnabledServices_def docsOnly_def afterLast_def
                getCurrentVersions_def getCurrentVersions_p001_def exec_def
                TrimSpace_def spaceRunes_def recordLine_def)

text \<open>
  C9 as amended: when the query succeeds, both programs return the same observed state
  and no error; every entry of it is for an enabled service and comes from a row whose
  image reference has exactly one \<open>:\<close>, the version being what follows it; and the row of
  an enabled service whose image reference has exactly one \<open>:\<close> is recorded so, when no
  other row starts with the name of that service. So a deployment that is not enabled
  has no entry, and neither has an enabled service without a row, or with a row whose
  image reference has no \<open>:\<close> or more than one.
\<close>

theorem C9_observed_versions:
  assumes "w tr (GetDeployment namespace) = (True, output)"
    and "versions = snd (fst (getCurrentVersions w s namespace [] tr))"
  shows "getCurrentVersions w s namespace [] tr = ((None, versions), tr @ [Run (GetDeployment namespace)]) \<and>
         getCurrentVersions_p001 w s namespace tr = (Inr versions, tr @ [Run (GetDeployment namespace)]) \<and>
         (\<forall>n v. map_of versions n = Some v \<longrightarrow>
            n \<in> getEnabledServices s \<and>
            (\<exists>img. n @ CHR 0x09 # img \<in> set (Split (TrimSpace output) (CHR 0x0A)) \<and>
                   count_list img CHR '':'' = 1 \<and> v = afterLast CHR '':'' img)) \<and>
         (\<forall>n img. n @ CHR 0x09 # img \<in> set (Split (TrimSpace output) (CHR 0x0A)) \<and>
            n \<in> getEnabledServices s \<and> CHR 0x09 \<notin> set n \<and> CHR 0x09 \<notin> set img \<and>
            count_list img CHR '':'' = 1 \<and>
            (\<forall>l \<in> set (Split (TrimSpace output) (CHR 0x0A)).
               take (Suc (length n)) l = n @ [CHR 0x09] \<longrightarrow> l = n @ CHR 0x09 # img)
            \<longrightarrow> map_of versions n = Some (afterLast CHR '':'' img))"
proof -
  let ?lines = "Split (TrimSpace output) (CHR 0x0A)"
  note g = getCurrentVersions_ok [of w tr namespace "output" s, OF assms(1)]
  have v: "versions = recordLines (getEnabledServices s) ?lines []"
    using assms(2) g(1) by simp
  have 1: "\<forall>n v. map_of versions n = Some v \<longrightarrow>
            n \<in> getEnabledServices s \<and>
            (\<exists>img. n @ CHR 0x09 # img \<in> set ?lines \<and>
                   count_list img CHR '':'' = 1 \<and> v = afterLast CHR '':'' img)"
    unfolding v using recordLines_from_row by blast
  have 2: "\<forall>n img. n @ CHR 0x09 # img \<in> set ?lines \<and>
            n \<in> getEnabledServices s \<and> CHR 0x09 \<notin> set n \<and> CHR 0x09 \<notin> set img \<and>
            count_list img CHR '':'' = 1 \<and>
            (\<forall>l \<in> set ?lines. take (Suc (length n)) l = n @ [CHR 0x09] \<longrightarrow> l = n @ CHR 0x09 # img)
            \<longrightarrow> map_of versions n = Some (afterLast CHR '':'' img)"
    unfolding v by (intro allI impI recordLines_records) blast+
  from g v 1 2 show ?thesis by simp
qed

theorem C9_observed_versions_witness:
  "okWorld [] (GetDeployment ''default'') = (True, deploymentRows) \<and>
   getCurrentVersions okWorld exampleServices ''default'' [] []
     = ((None, [(''docs-fe'', ''v3.48.0'')]), [Run (GetDeployment ''default'')]) \<and>
   getCurrentVersions_p001 okWorld exampleServices ''default'' []
     = (Inr [(''docs-fe'', ''v3.48.0'')], [Run (GetDeployment ''default'')]) \<and>
   ''docs-fe'' \<in> getEnabledServices exampleServices \<and>
   count_list ''registry.example/docs-fe:v3.48.0'' CHR '':'' = 1 \<and>
   map_of (snd (fst (getCurrentVersions okWorld exampleServices ''default'' [] []))) ''docs-fe''
     = Some (afterLast CHR '':'' ''registry.example/docs-fe:v3.48.0'') \<and>
   afterLast CHR '':'' ''registry.example/docs-fe:v3.48.0'' = ''v3.48.0''"
proof -
  let ?versions = "snd (fst (getCurrentVersions okWorld exampleServices ''default'' [] []))"
  let ?img = "''registry.example/docs-fe:v3.48.0''"
  have w: "okWorld [] (GetDeployment ''default'') = (True, deploymentRows)"
    by (simp add: okWorld_def)
  have e: "''docs-fe'' \<in> getEnabledServices exampleServices"
          "''other'' \<notin> getEnabledServices exampleServices"
    by (simp_all add: getEnabledServices_def exampleServices_def)
  have c: "count_list ?img CHR '':'' = 1" by simp
  have a: "afterLast CHR '':'' ?img = ''v3.48.0''" by (simp add: afterLast_def)
  have v: "?versions = [(''docs-fe'', ''v3.48.0'')]"
    by (simp add: getCurrentVersions_def exec_def w example_lines recordLine_def e)
  have row: "''docs-fe'' @ CHR 0x09 # ?img \<in> set (Split (TrimSpace deploymentRows) (CHR 0x0A))"
    by (simp add: example_lines)
  have only: "\<forall>l \<in> set (Split (TrimSpace deploymentRows) (CHR 0x0A)).
                take (Suc (length ''docs-fe'')) l = ''docs-fe'' @ [CHR 0x09]
                  \<longrightarrow> l = ''docs-fe'' @ CHR 0x09 # ?img"
    by (simp add: example_lines)
  have tabs: "CHR 0x09 \<notin> set ''docs-fe''" "CHR 0x09 \<notin> set ?img" by simp_all
  note th = C9_observed_versions [of okWorld "[]" "''default''" deploymentRows ?versions
                                    exampleServices, OF w refl]
  from th row e(1) tabs c only
  have m: "map_of ?versions ''docs-fe'' = Some (afterLast CHR '':'' ?img)" by blast
  from th v have g: "getCurrentVersions okWorld exampleServices ''default'' [] []
     = ((None, [(''docs-fe'', ''v3.48.0'')]), [Run (GetDeployment ''default'')])"
    "getCurrentVersions_p001 okWorld exampleServices ''default'' []
     = (Inr [(''docs-fe'', ''v3.48.0'')], [Run (GetDeployment ''default'')])"
    by simp_all
  from w g e(1) c m a show ?thesis by blast
qed


subsection \<open>C10: a name that is both a single service and a group\<close>

text \<open>
  C10: in \<open>part_001\<close>, when a name of the scope filter is, after trimming, both an enabled
  single service and an enabled group, the pass of the loop for that name writes the entry
  of the single service, at the version that \<open>selectVersion\<close> resolves, and nothing else:
  the members of the group are not added and nothing is logged. A filter that consists
  of that one name therefore selects the single service alone.
\<close>

theorem C10_single_shadows_group:
  assumes "map_of (SingleServices s) (TrimSpace token) = Some info" and "Enabled info"
    and "map_of (ServiceGroups s) (TrimSpace token) = Some grp" and "group_Enabled grp"
  shows "selectOne_p001 s versionInput token (selectedServices, tr)
           = (AList.update (TrimSpace token) (selectVersion versionInput (Version info))
                selectedServices, tr) \<and>
         (servicesInput \<noteq> [] \<and> Split servicesInput CHR '','' = [token] \<longrightarrow>
            getSelectedServices_p001 s servicesInput versionInput tr
              = ([(TrimSpace token, selectVersion versionInput (Version info))], tr))"
  using assms by (simp add: selectOne_p001_def enabledSingle_def getSelectedServices_p001_def)

theorem C10_single_shadows_group_witness:
  "map_of (SingleServices sameName) (TrimSpace '' api'') = Some \<lparr>Enabled = True, Version = ''v1''\<rparr> \<and>
   map_of (ServiceGroups sameName) (TrimSpace '' api'')
     = Some \<lparr>group_Enabled = True, group_Version = ''v2'', group_Services = [''api-worker'']\<rparr> \<and>
   selectOne_p001 sameName [] '' api'' ([(''api-worker'', ''v0'')], [])
     = ([(''api-worker'', ''v0''), (''api'', ''v1'')], []) \<and>
   getSelectedServices_p001 sameName '' api'' [] [] = ([(''api'', ''v1'')], [])"
proof -
  have t: "TrimSpace '' api'' = ''api''" by (simp add: TrimSpace_def spaceRunes_def)
  have h1: "map_of (SingleServices sameName) (TrimSpace '' api'') = Some \<lparr>Enabled = True, Version = ''v1''\<rparr>"
    by (simp add: t sameName_def)
  have h2: "Enabled \<lparr>Enabled = True, Version = ''v1''\<rparr>" by simp
  have h3: "map_of (ServiceGroups sameName) (TrimSpace '' api'')
     = Some \<lparr>group_Enabled = True, group_Version = ''v2'', group_Services = [''api-worker'']\<rparr>"
    by (simp add: t sameName_def)
  have h4: "group_Enabled \<lparr>group_Enabled = True, group_Version = ''v2'', group_Services = [''api-worker'']\<rparr>"
    by simp
  from h1 h3 C10_single_shadows_group [OF h1 h2 h3 h4, of "[]" "[(''api-worker'', ''v0'')]" "[]" "'' api''"]
  show ?thesis by (simp add: t selectVersion_def)
qed

end
